theory Spec2Isabelle
  imports Main
begin

section \<open>Debug-information entries\<close>

text \<open>
  The program (\<^verbatim>\<open>gen_dtrace_helper.py\<close>) reads the DWARF entries of a compilation unit
  through pyelftools and prints C declarations. An entry (\<^verbatim>\<open>DIE\<close>) has a tag, an offset in
  the debug-information section, a dictionary of attributes and an ordered list of
  children. The attributes the program reads are the fields of \<open>attrs\<close>; an attribute
  that is absent from the dictionary is \<open>None\<close> (\<open>False\<close> for the flag
  \<^verbatim>\<open>DW_AT_declaration\<close>, of which only the presence is read). Names are taken as
  already decoded text.

  An attribute of pyelftools is a named tuple \<^verbatim>\<open>(name, form, value, raw_value, offset)\<close>:
  as a non-empty tuple it is always true in a condition, whatever its value. A test
  such as \<^verbatim>\<open>if loc_file:\<close> on the result of \<^verbatim>\<open>attributes.get(..., None)\<close> is therefore a
  test of presence, and \<^verbatim>\<open>attributes[...]\<close> on an absent attribute raises
  \<^verbatim>\<open>KeyError\<close>.
\<close>

record attrs =
  at_name :: "string option"
  at_type :: "int option"
  at_decl_file :: "int option"
  at_decl_line :: "int option"
  at_byte_size :: "int option"
  at_declaration :: bool
  at_const_value :: "int option"
  at_data_member_location :: "int option"
  at_count :: "int option"
  at_language :: "int option"

datatype die = DIE (tag: string) (offset: int) (attributes: attrs) (children: "die list")

text \<open>
  The exceptions of the program: its own \<^verbatim>\<open>ParseError\<close>, which carries a message, and
  the interpreter's. \<open>RecursionError\<close> is what the interpreter raises when a call would
  exceed its recursion limit.
\<close>

datatype exn =
    ParseError string
  | KeyError
  | TypeError
  | AttributeError
  | UnboundLocalError
  | RecursionError

datatype 'a result = Ok 'a | Raise exn

section \<open>Text helpers\<close>

definition tab :: string where
  "tab = [CHR 0x09]"

definition newline :: string where
  "newline = [CHR 0x0A]"

definition digit_char :: "nat \<Rightarrow> char" where
  "digit_char d = ''0123456789abcdef'' ! d"

fun dec_nat :: "nat \<Rightarrow> string" where
  "dec_nat n = (if n < 10 then [digit_char n] else dec_nat (n div 10) @ [digit_char (n mod 10)])"

fun hex_nat :: "nat \<Rightarrow> string" where
  "hex_nat n = (if n < 16 then [digit_char n] else hex_nat (n div 16) @ [digit_char (n mod 16)])"

declare dec_nat.simps [simp del]
declare hex_nat.simps [simp del]

text \<open>\<^verbatim>\<open>str(i)\<close> and \<^verbatim>\<open>f"{i:x}"\<close> of a Python integer.\<close>

definition str_int :: "int \<Rightarrow> string" where
  "str_int i = (if i < 0 then ''-'' @ dec_nat (nat (- i)) else dec_nat (nat i))"

definition hex_int :: "int \<Rightarrow> string" where
  "hex_int i = (if i < 0 then ''-'' @ hex_nat (nat (- i)) else hex_nat (nat i))"

text \<open>\<^verbatim>\<open>sep.join(xs)\<close>.\<close>

fun join :: "string \<Rightarrow> string list \<Rightarrow> string" where
  "join sep [] = []"
| "join sep [x] = x"
| "join sep (x # y # ys) = x @ sep @ join sep (y # ys)"

text \<open>
  An optional identifier: \<^verbatim>\<open>if name:\<close> holds for a string that is neither \<^verbatim>\<open>None\<close> nor
  empty; \<^verbatim>\<open>name if name else ""\<close>; and the text an f-string gives for a value that may
  be \<^verbatim>\<open>None\<close>.
\<close>

definition truthy :: "string option \<Rightarrow> bool" where
  "truthy name = (case name of None \<Rightarrow> False | Some s \<Rightarrow> s \<noteq> [])"

definition or_empty :: "string option \<Rightarrow> string" where
  "or_empty name = (if truthy name then the name else [])"

definition fstr :: "string option \<Rightarrow> string" where
  "fstr v = (case v of None \<Rightarrow> ''None'' | Some s \<Rightarrow> s)"

section \<open>The class TypeDG\<close>

text \<open>
  The object after \<^verbatim>\<open>__init__\<close>: the unit's base offset, the file table
  (\<^verbatim>\<open>filedesc\<close>, a dictionary whose keys are the indices \<open>0, 1, ...\<close> of the line
  program's file entries), the offset map and the name index. The name index maps a name
  to a set of entries; it is kept as a list in insertion order.
\<close>

record typedg =
  cu_offset :: int
  filedesc :: "string list"
  offset_to_die :: "int \<Rightarrow> die option"
  named_types :: "(string \<times> die list) list"

definition TAGS_for_types :: "(string \<times> string option) list" where
  "TAGS_for_types =
    [(''DW_TAG_array_type'', None),
     (''DW_TAG_enumeration_type'', Some ''enum''),
     (''DW_TAG_structure_type'', Some ''struct''),
     (''DW_TAG_class_type'', Some ''/*<class>*/struct''),
     (''DW_TAG_typedef'', Some ''typedef''),
     (''DW_TAG_union_type'', Some ''union''),
     (''DW_TAG_subprogram'', None)]"

definition TAGS_for_qualifiers :: "(string \<times> string) list" where
  "TAGS_for_qualifiers =
    [(''DW_TAG_const_type'', ''const''),
     (''DW_TAG_volatile_type'', ''volatile''),
     (''DW_TAG_restrict_type'', ''restrict''),
     (''DW_TAG_atomic_type'', ''_Atomic'')]"

text \<open>
  \<^verbatim>\<open>badchars = re.compile(".*[^A-Za-z0-9_ ]")\<close>, matched at the start of the name: some
  prefix without a line break (the dot does not match one) is followed by a character
  outside the class.
\<close>

definition goodchar :: "char \<Rightarrow> bool" where
  "goodchar c = (c \<in> set ''ABCDEFGHIJKLMNOPQRSTUVWXYZabcdefghijklmnopqrstuvwxyz0123456789_ '')"

fun badchars_match :: "string \<Rightarrow> bool" where
  "badchars_match [] = False"
| "badchars_match (c # cs) = (\<not> goodchar c \<or> (c \<noteq> CHR 0x0A \<and> badchars_match cs))"

definition is_valid_name :: "string \<Rightarrow> bool" where
  "is_valid_name name = (if badchars_match name then False else True)"

definition get_type_die :: "typedg \<Rightarrow> die \<Rightarrow> die option" where
  "get_type_die dg die =
    (case at_type (attributes die) of
       Some v \<Rightarrow> offset_to_die dg v
     | None \<Rightarrow> None)"

definition src_location :: "typedg \<Rightarrow> die \<Rightarrow> string" where
  "src_location dg die =
    (let srcfile =
       (case at_decl_file (attributes die) of
          Some v \<Rightarrow>
            (let fileno = v - 1 in
             if 0 \<le> fileno \<and> fileno < int (length (filedesc dg))
             then filedesc dg ! nat fileno
             else ''_nowhere'' @ str_int fileno @ ''_'')
        | None \<Rightarrow> ''_nowhere_'');
         srcline =
       (case at_decl_line (attributes die) of
          Some l \<Rightarrow> '':'' @ str_int l
        | None \<Rightarrow> [])
     in srcfile @ srcline)"

definition get_stem :: "die \<Rightarrow> string result" where
  "get_stem die =
    (case map_of TAGS_for_types (tag die) of
       Some (Some stem) \<Rightarrow> Ok stem
     | _ \<Rightarrow> Raise (ParseError (''no stem is known for '' @ tag die)))"

text \<open>
  \<^verbatim>\<open>_get_die_name(die)\<close>, the call without \<^verbatim>\<open>gensym\<close>: the name, \<^verbatim>\<open>None\<close> for an entry
  without one, or a \<^verbatim>\<open>ParseError\<close>. \<^verbatim>\<open>_get_die_name(die, True)\<close> always gives a string
  when it returns.
\<close>

definition get_die_name :: "typedg \<Rightarrow> die \<Rightarrow> string option result" where
  "get_die_name dg die =
    (case at_name (attributes die) of
       Some name \<Rightarrow>
         if is_valid_name name then Ok (Some name)
         else Raise (ParseError (''invalid C identifier '' @ [CHR 0x27] @ name @ [CHR 0x27]))
     | None \<Rightarrow> Ok None)"

definition get_die_name_gensym :: "typedg \<Rightarrow> die \<Rightarrow> string result" where
  "get_die_name_gensym dg die =
    (case at_name (attributes die) of
       Some name \<Rightarrow>
         if is_valid_name name then Ok name
         else Raise (ParseError (''invalid C identifier '' @ [CHR 0x27] @ name @ [CHR 0x27]))
     | None \<Rightarrow>
         (case get_stem die of
            Raise e \<Rightarrow> Raise e
          | Ok stem \<Rightarrow>
              Ok (''anon_'' @ stem @ ''_'' @ hex_int (cu_offset dg) @ ''_'' @ hex_int (offset die))))"

section \<open>The declarator synthesizer gen\_decl\<close>

text \<open>
  \<^verbatim>\<open>gen_decl(die, shown, name)\<close> follows type references, which may form a cycle, so
  the model counts the frames the interpreter still allows: with none left a call
  raises \<open>RecursionError\<close>. The body is written over \<open>rec\<close>, the function that a
  nested call of \<^verbatim>\<open>gen_decl\<close> runs. The argument \<^verbatim>\<open>shown\<close> is passed on and never
  read, and is left out. The result is a string, or \<^verbatim>\<open>None\<close> where the source returns
  the absent name of a base type; a \<^verbatim>\<open>+\<close> of \<^verbatim>\<open>None\<close> and a string raises \<open>TypeError\<close>.
\<close>

type_synonym gen = "die option \<Rightarrow> string option \<Rightarrow> string option result"

fun gen_params :: "gen \<Rightarrow> typedg \<Rightarrow> die list \<Rightarrow> string option list \<Rightarrow> string option list result" where
  "gen_params rec dg [] fparams = Ok fparams"
| "gen_params rec dg (child # cs) fparams =
    (if tag child \<noteq> ''DW_TAG_formal_parameter'' then gen_params rec dg cs fparams
     else (case rec (get_type_die dg child) None of
             Raise e \<Rightarrow> Raise e
           | Ok p \<Rightarrow> gen_params rec dg cs (fparams @ [p])))"

fun array_count :: "die list \<Rightarrow> string \<Rightarrow> string" where
  "array_count [] count = count"
| "array_count (child # cs) count =
    (if tag child \<noteq> ''DW_TAG_subrange_type'' then array_count cs count
     else (case at_count (attributes child) of
             None \<Rightarrow> array_count cs count
           | Some v \<Rightarrow> array_count cs (''['' @ str_int v @ '']'')))"

definition gen_decl_body :: "typedg \<Rightarrow> gen \<Rightarrow> gen" where
  "gen_decl_body dg rec d name =
    (case d of
       None \<Rightarrow>
         (case name of
            None \<Rightarrow> Ok (Some ''void'')
          | Some nm \<Rightarrow> Ok (Some (''void '' @ nm)))
     | Some die \<Rightarrow>
         if tag die = ''DW_TAG_base_type'' then
           (if truthy name then
              (case get_die_name dg die of
                 Raise e \<Rightarrow> Raise e
               | Ok None \<Rightarrow> Raise TypeError
               | Ok (Some s) \<Rightarrow> Ok (Some (s @ '' '' @ the name)))
            else get_die_name dg die)
         else if tag die = ''DW_TAG_pointer_type'' then
           rec (get_type_die dg die) (Some (''*'' @ or_empty name))
         else if tag die = ''DW_TAG_reference_type'' then
           rec (get_type_die dg die) (Some (''/*<&>*/'' @ or_empty name))
         else if tag die = ''DW_TAG_rvalue_reference_type'' then
           rec (get_type_die dg die) (Some (''/*<&&>*/'' @ or_empty name))
         else if tag die = ''DW_TAG_subroutine_type'' then
           (case gen_params rec dg (children die) [] of
              Raise e \<Rightarrow> Raise e
            | Ok fparams0 \<Rightarrow>
                (case (if fparams0 = []
                       then (case rec None None of
                               Raise e \<Rightarrow> Raise e
                             | Ok p \<Rightarrow> Ok [p])
                       else Ok fparams0) of
                   Raise e \<Rightarrow> Raise e
                 | Ok fparams \<Rightarrow>
                     (case rec (get_type_die dg die) None of
                        Raise e \<Rightarrow> Raise e
                      | Ok None \<Rightarrow> Raise TypeError
                      | Ok (Some ret) \<Rightarrow>
                          (case name of
                             None \<Rightarrow> Raise TypeError
                           | Some nm \<Rightarrow>
                               if None \<in> set fparams then Raise TypeError
                               else Ok (Some (ret @ '' ('' @ nm @ '')('' @
                                          join '', '' (map the fparams) @ '')''))))))
         else if tag die = ''DW_TAG_array_type'' then
           (let count = array_count (children die) ''[]'' in
            case rec (get_type_die dg die) None of
              Raise e \<Rightarrow> Raise e
            | Ok None \<Rightarrow> Raise TypeError
            | Ok (Some elem) \<Rightarrow>
                (case name of
                   None \<Rightarrow> Raise TypeError
                 | Some nm \<Rightarrow> Ok (Some (elem @ '' '' @ nm @ count))))
         else if map_of TAGS_for_qualifiers (tag die) \<noteq> None then
           (let prefix =
              (if tag die = ''DW_TAG_restrict_type'' then []
               else the (map_of TAGS_for_qualifiers (tag die)) @ '' '') in
            case rec (get_type_die dg die) name of
              Raise e \<Rightarrow> Raise e
            | Ok None \<Rightarrow> Raise TypeError
            | Ok (Some s) \<Rightarrow> Ok (Some (prefix @ s)))
         else if (case map_of TAGS_for_types (tag die) of Some (Some stem) \<Rightarrow> True | _ \<Rightarrow> False) then
           (case (if tag die = ''DW_TAG_typedef'' then Ok []
                  else (case get_stem die of
                          Raise e \<Rightarrow> Raise e
                        | Ok stem \<Rightarrow> Ok (stem @ '' ''))) of
              Raise e \<Rightarrow> Raise e
            | Ok prefix \<Rightarrow>
                (case get_die_name_gensym dg die of
                   Raise e \<Rightarrow> Raise e
                 | Ok nm \<Rightarrow>
                     Ok (Some (prefix @ nm @ (if truthy name then '' '' @ the name else [])))))
         else Raise (ParseError (''cannot generate decl. for '' @ tag die)))"

primrec gen_decl :: "typedg \<Rightarrow> nat \<Rightarrow> gen" where
  "gen_decl dg 0 = (\<lambda>d name. Raise RecursionError)"
| "gen_decl dg (Suc n) = gen_decl_body dg (gen_decl dg n)"

section \<open>The emitter track\<close>

text \<open>
  The dictionary \<^verbatim>\<open>shown\<close> has two kinds of keys: an entry (the pyelftools object, of
  which there is one per offset, so the offset stands for it) mapped to \<^verbatim>\<open>"defined"\<close>
  or \<^verbatim>\<open>"declared"\<close>, and a tag name mapped to the entry that defined it.
\<close>

datatype key = KDie int | KTag string

datatype mark = Defined | Declared | Entry int

text \<open>
  What the program prints, one value per call of \<^verbatim>\<open>print\<close>, named after the statement
  that prints it. \<open>text_of\<close> is the text written to the output (without the line break
  that \<^verbatim>\<open>print\<close> adds). The opening line of a definition also records the tag name
  (the variable \<^verbatim>\<open>tag\<close>) that the statement defines.
\<close>

datatype printed =
    Location string
  | Typedef string
  | Forward string
  | Opening string string
  | Member string
  | Padding string
  | Closing string
  | EnumOpening string string
  | EnumBody string
  | Skipped string

fun text_of :: "printed \<Rightarrow> string" where
  "text_of (Location s) = s"
| "text_of (Typedef s) = s"
| "text_of (Forward s) = s"
| "text_of (Opening tg s) = s"
| "text_of (Member s) = s"
| "text_of (Padding s) = s"
| "text_of (Closing s) = s"
| "text_of (EnumOpening tg s) = s"
| "text_of (EnumBody s) = s"
| "text_of (Skipped s) = s"

record state =
  out :: "printed list"
  shown :: "key \<Rightarrow> mark option"

definition print_line :: "printed \<Rightarrow> state \<Rightarrow> state" where
  "print_line l st = st\<lparr>out := out st @ [l]\<rparr>"

definition set_shown :: "key \<Rightarrow> mark \<Rightarrow> state \<Rightarrow> state" where
  "set_shown k m st = st\<lparr>shown := (shown st)(k \<mapsto> m)\<rparr>"

text \<open>
  A call of \<^verbatim>\<open>track\<close> returns or raises, and in both cases leaves its changes of
  \<^verbatim>\<open>shown\<close> and its output behind: the result is the exception, if any, and the state.
  Inside the body, \<open>ctl\<close> says how a branch of the \<^verbatim>\<open>if\<close> chain ends: it falls through to
  the final write of lines 326 to 330 (with \<^verbatim>\<open>decl_only\<close>), returns early, or raises.
\<close>

type_synonym tracker = "die option \<Rightarrow> int \<Rightarrow> bool \<Rightarrow> state \<Rightarrow> exn option \<times> state"

datatype ctl = Next bool | Return | Raised exn

text \<open>\<^verbatim>\<open>except ParseError as e: raise ParseError(prefix + str(e)) from e\<close>\<close>

fun wrap :: "string \<Rightarrow> exn \<Rightarrow> exn" where
  "wrap prefix (ParseError m) = ParseError (prefix @ m)"
| "wrap prefix KeyError = KeyError"
| "wrap prefix TypeError = TypeError"
| "wrap prefix AttributeError = AttributeError"
| "wrap prefix UnboundLocalError = UnboundLocalError"
| "wrap prefix RecursionError = RecursionError"

fun track_params :: "tracker \<Rightarrow> typedg \<Rightarrow> int \<Rightarrow> die list \<Rightarrow> state \<Rightarrow> exn option \<times> state" where
  "track_params rec dg depth [] st = (None, st)"
| "track_params rec dg depth (child # cs) st =
    (if tag child \<noteq> ''DW_TAG_formal_parameter'' then track_params rec dg depth cs st
     else (case rec (get_type_die dg child) depth False st of
             (Some e, st') \<Rightarrow> (Some (wrap ''formal-parameter -> '' e), st')
           | (None, st') \<Rightarrow> track_params rec dg depth cs st'))"

definition track_subprogram :: "tracker \<Rightarrow> typedg \<Rightarrow> die \<Rightarrow> int \<Rightarrow> state \<Rightarrow> ctl \<times> state" where
  "track_subprogram rec dg die depth st =
    (case rec (get_type_die dg die) depth False st of
       (Some e, st1) \<Rightarrow> (Raised e, st1)
     | (None, st1) \<Rightarrow>
         (case track_params rec dg depth (children die) st1 of
            (Some e, st2) \<Rightarrow> (Raised e, st2)
          | (None, st2) \<Rightarrow> (Next False, st2)))"

definition track_pointer :: "tracker \<Rightarrow> typedg \<Rightarrow> die \<Rightarrow> int \<Rightarrow> state \<Rightarrow> ctl \<times> state" where
  "track_pointer rec dg die depth st =
    (case rec (get_type_die dg die) depth True st of
       (Some e, st1) \<Rightarrow> (Raised (wrap ''pointer -> '' e), st1)
     | (None, st1) \<Rightarrow> (Next False, st1))"

text \<open>
  Qualifiers and arrays call \<^verbatim>\<open>self.track(..., shown, depth)\<close>: the fourth argument
  takes its default, \<^verbatim>\<open>False\<close>.
\<close>

definition track_through :: "tracker \<Rightarrow> typedg \<Rightarrow> die \<Rightarrow> int \<Rightarrow> state \<Rightarrow> ctl \<times> state" where
  "track_through rec dg die depth st =
    (case rec (get_type_die dg die) depth False st of
       (Some e, st1) \<Rightarrow> (Raised e, st1)
     | (None, st1) \<Rightarrow> (Next False, st1))"

definition location_comment :: "typedg \<Rightarrow> die \<Rightarrow> printed" where
  "location_comment dg die = Location (newline @ ''/* @ '' @ src_location dg die @ '' */'')"

definition track_typedef :: "tracker \<Rightarrow> gen \<Rightarrow> typedg \<Rightarrow> die \<Rightarrow> int \<Rightarrow> state \<Rightarrow> ctl \<times> state" where
  "track_typedef rec gd dg die depth st =
    (let dep = get_type_die dg die in
     case rec dep depth False st of
       (Some e, st1) \<Rightarrow> (Raised (wrap ''typedef -> '' e), st1)
     | (None, st1) \<Rightarrow>
         (let st2 = print_line (location_comment dg die) st1 in
          case get_die_name dg die of
            Raise e \<Rightarrow> (Raised e, st2)
          | Ok nm \<Rightarrow>
              (case gd dep nm of
                 Raise e \<Rightarrow> (Raised e, st2)
               | Ok None \<Rightarrow> (Raised TypeError, st2)
               | Ok (Some s) \<Rightarrow> (Next False, print_line (Typedef (''typedef '' @ s @ '';'')) st2))))"

text \<open>
  The handler of a member's failure, line 273: the message reads \<^verbatim>\<open>mtype.tag\<close> first,
  which raises \<open>AttributeError\<close> when the member's type is \<^verbatim>\<open>None\<close>.
\<close>

definition member_failure :: "die option \<Rightarrow> string \<Rightarrow> exn \<Rightarrow> exn" where
  "member_failure mtype mname e =
    (case e of
       ParseError m \<Rightarrow>
         (case mtype of
            None \<Rightarrow> AttributeError
          | Some mt \<Rightarrow> ParseError (''failed to track a member '' @ tag mt @ '' '' @ mname @ '' '' @ m))
     | _ \<Rightarrow> e)"

fun track_members ::
  "tracker \<Rightarrow> gen \<Rightarrow> typedg \<Rightarrow> int \<Rightarrow> die list \<Rightarrow> string list \<Rightarrow> state \<Rightarrow> string list result \<times> state" where
  "track_members rec gd dg depth [] members st = (Ok members, st)"
| "track_members rec gd dg depth (child # cs) members st =
    (if tag child \<noteq> ''DW_TAG_member'' then track_members rec gd dg depth cs members st
     else
       (let mtype = get_type_die dg child in
        case at_data_member_location (attributes child) of
          None \<Rightarrow> track_members rec gd dg depth cs members st
        | Some mloc \<Rightarrow>
            (case get_die_name dg child of
               Raise e \<Rightarrow> (Raise (member_failure mtype ''??'' e), st)
             | Ok mname \<Rightarrow>
                 (case rec mtype depth False st of
                    (Some e, st1) \<Rightarrow> (Raise (member_failure mtype (fstr mname) e), st1)
                  | (None, st1) \<Rightarrow>
                      (case gd mtype mname of
                         Raise e \<Rightarrow> (Raise e, st1)
                       | Ok decl \<Rightarrow>
                           track_members rec gd dg depth cs
                             (members @ [tab @ fstr decl @ '';'' @ tab @ ''/* +0x'' @ hex_int mloc @ '' */''])
                             st1)))))"

definition track_aggregate ::
  "tracker \<Rightarrow> gen \<Rightarrow> typedg \<Rightarrow> die \<Rightarrow> int \<Rightarrow> bool \<Rightarrow> state \<Rightarrow> ctl \<times> state" where
  "track_aggregate rec gd dg die depth maybe_incomplete st =
    (if maybe_incomplete then
       (case gd (Some die) None of
          Raise e \<Rightarrow> (Raised e, st)
        | Ok None \<Rightarrow> (Raised TypeError, st)
        | Ok (Some s) \<Rightarrow> (Next True, print_line (Forward (s @ '';'')) st))
     else if at_declaration (attributes die) then (Return, st)
     else
       (case get_die_name_gensym dg die of
          Raise e \<Rightarrow> (Raised e, st)
        | Ok tg \<Rightarrow>
            if shown st (KTag tg) \<noteq> None then (Return, st)
            else
              (let st1 = set_shown (KDie (offset die)) Defined
                           (set_shown (KTag tg) (Entry (offset die)) st) in
               case at_byte_size (attributes die) of
                 None \<Rightarrow> (Raised KeyError, st1)
               | Some byte_size \<Rightarrow>
                   (case track_members rec gd dg depth (children die) [] st1 of
                      (Raise e, st2) \<Rightarrow> (Raised e, st2)
                    | (Ok members, st2) \<Rightarrow>
                        (let st3 = print_line (location_comment dg die) st2 in
                         case gd (Some die) None of
                           Raise e \<Rightarrow> (Raised e, st3)
                         | Ok None \<Rightarrow> (Raised TypeError, st3)
                         | Ok (Some s) \<Rightarrow>
                             (let st4 = print_line
                                          (Opening tg (s @ tab @ ''/* size=0x'' @ hex_int byte_size @ '' */'')) st3;
                                  st5 = (if members \<noteq> []
                                         then fold (\<lambda>line. print_line (Member line)) members st4
                                         else if byte_size > 0
                                         then print_line
                                                (Padding (tab @ ''char dummy[0x'' @ hex_int byte_size @ ''];'')) st4
                                         else st4)
                              in (Next False, print_line (Closing ''};'') st5)))))))"

text \<open>
  The enumerators, lines 296 to 303. \<^verbatim>\<open>ctval = child.attributes["DW_AT_const_value"]\<close> is the
  attribute, a named tuple, and \<^verbatim>\<open>if ctval:\<close> tests the tuple, not \<^verbatim>\<open>ctval.value\<close>.
\<close>

definition attribute_truthy :: "int \<Rightarrow> bool" where
  "attribute_truthy v = True"

fun enum_members :: "typedg \<Rightarrow> die list \<Rightarrow> string list \<Rightarrow> string list result" where
  "enum_members dg [] members = Ok members"
| "enum_members dg (child # cs) members =
    (if tag child \<noteq> ''DW_TAG_enumerator'' then enum_members dg cs members
     else
       (case at_const_value (attributes child) of
          None \<Rightarrow> Raise KeyError
        | Some v \<Rightarrow>
            (case get_die_name dg child of
               Raise e \<Rightarrow> Raise e
             | Ok nm \<Rightarrow>
                 if attribute_truthy v
                 then enum_members dg cs (members @ [tab @ fstr nm @ '' = '' @ str_int v])
                 else enum_members dg cs (members @ [tab @ fstr nm]))))"

definition track_enumeration :: "gen \<Rightarrow> typedg \<Rightarrow> die \<Rightarrow> state \<Rightarrow> ctl \<times> state" where
  "track_enumeration gd dg die st =
    (case get_die_name_gensym dg die of
       Raise e \<Rightarrow> (Raised e, st)
     | Ok tg \<Rightarrow>
         if shown st (KTag tg) \<noteq> None then (Return, st)
         else
           (let st1 = set_shown (KTag tg) (Entry (offset die)) st in
            case enum_members dg (children die) [] of
              Raise e \<Rightarrow> (Raised e, st1)
            | Ok members \<Rightarrow>
                (case gd (Some die) None of
                   Raise e \<Rightarrow> (Raised e, st1)
                 | Ok None \<Rightarrow> (Raised TypeError, st1)
                 | Ok (Some s) \<Rightarrow>
                     (Next False,
                      print_line (Closing ''};'')
                        (print_line (EnumBody (join ('','' @ newline) members))
                          (print_line (EnumOpening tg (s @ '' {'')) st1))))))"

text \<open>
  References, lines 309 to 321: the handler is a bare \<^verbatim>\<open>except:\<close> that names \<^verbatim>\<open>e\<close>
  without binding it, so evaluating \<^verbatim>\<open>str(e)\<close> raises \<open>UnboundLocalError\<close> whatever was
  caught.
\<close>

definition track_reference :: "tracker \<Rightarrow> typedg \<Rightarrow> die \<Rightarrow> int \<Rightarrow> state \<Rightarrow> ctl \<times> state" where
  "track_reference rec dg die depth st =
    (case rec (get_type_die dg die) depth False st of
       (Some e, st1) \<Rightarrow> (Raised UnboundLocalError, st1)
     | (None, st1) \<Rightarrow> (Next False, st1))"

definition final_write :: "die \<Rightarrow> ctl \<times> state \<Rightarrow> exn option \<times> state" where
  "final_write die r =
    (case r of
       (Raised e, st) \<Rightarrow> (Some e, st)
     | (Return, st) \<Rightarrow> (None, st)
     | (Next decl_only, st) \<Rightarrow>
         if decl_only then
           (if shown st (KDie (offset die)) \<noteq> Some Defined
            then (None, set_shown (KDie (offset die)) Declared st)
            else (None, st))
         else (None, set_shown (KDie (offset die)) Defined st))"

definition track_body :: "typedg \<Rightarrow> tracker \<Rightarrow> gen \<Rightarrow> tracker" where
  "track_body dg rec gd d depth0 maybe_incomplete st =
    (let depth = depth0 + 1 in
     case d of
       None \<Rightarrow> (None, st)
     | Some die \<Rightarrow>
         (let is_known = shown st (KDie (offset die)) in
          if is_known = Some Defined then (None, st)
          else if is_known = Some Declared \<and> maybe_incomplete then (None, st)
          else final_write die
            (if tag die = ''DW_TAG_base_type'' then (Next False, st)
             else if tag die \<in> {''DW_TAG_subprogram'', ''DW_TAG_subroutine_type''}
               then track_subprogram rec dg die depth st
             else if tag die = ''DW_TAG_pointer_type''
               then track_pointer rec dg die depth st
             else if tag die \<in> fst ` set TAGS_for_qualifiers
               then track_through rec dg die depth st
             else if tag die = ''DW_TAG_typedef''
               then track_typedef rec gd dg die depth st
             else if tag die \<in> {''DW_TAG_structure_type'', ''DW_TAG_class_type'', ''DW_TAG_union_type''}
               then track_aggregate rec gd dg die depth maybe_incomplete st
             else if tag die = ''DW_TAG_array_type''
               then track_through rec dg die depth st
             else if tag die = ''DW_TAG_enumeration_type''
               then track_enumeration gd dg die st
             else if tag die = ''DW_TAG_reference_type''
               then track_reference rec dg die depth st
             else if tag die = ''DW_TAG_rvalue_reference_type''
               then track_reference rec dg die depth st
             else (Raised (ParseError (''incmpatible DIE: '' @ tag die)), st))))"

text \<open>
  \<open>track dg n\<close> is a call of \<^verbatim>\<open>track\<close> with \<open>n\<close> frames left before the interpreter's
  recursion limit; the calls it makes, of \<^verbatim>\<open>track\<close> and of \<^verbatim>\<open>gen_decl\<close>, have one frame
  less. Only these nested calls are counted: the frames of the callers of \<^verbatim>\<open>track\<close>, of the
  helpers and of the interpreter's own operations are not, so a call needs more levels of
  the interpreter than it needs frames here, and a number of frames stands for no
  particular value of the recursion limit.
\<close>

primrec track :: "typedg \<Rightarrow> nat \<Rightarrow> tracker" where
  "track dg 0 = (\<lambda>d depth maybe_incomplete st. (Some RecursionError, st))"
| "track dg (Suc n) = track_body dg (track dg n) (gen_decl dg n)"

section \<open>The driver explain\<close>

definition skipped_root :: "typedg \<Rightarrow> die \<Rightarrow> string \<Rightarrow> string \<Rightarrow> printed" where
  "skipped_root dg die name m =
    Skipped (''/* skipped '' @ tag die @ '' '' @ [CHR 0x27] @ name @ [CHR 0x27] @
             '' at '' @ src_location dg die @ '': '' @ m @ '' */'')"

fun explain_dies :: "typedg \<Rightarrow> nat \<Rightarrow> string \<Rightarrow> die list \<Rightarrow> state \<Rightarrow> exn option \<times> state" where
  "explain_dies dg n name [] st = (None, st)"
| "explain_dies dg n name (die # ds) st =
    (case track dg n (Some die) 0 False st of
       (None, st1) \<Rightarrow> explain_dies dg n name ds st1
     | (Some (ParseError m), st1) \<Rightarrow>
         explain_dies dg n name ds (print_line (skipped_root dg die name m) st1)
     | (Some e, st1) \<Rightarrow> (Some e, st1))"

type_synonym filter_fn = "string \<Rightarrow> die list \<Rightarrow> (key \<Rightarrow> mark option) \<Rightarrow> die list"

fun explain_names ::
  "typedg \<Rightarrow> nat \<Rightarrow> filter_fn option \<Rightarrow> (string \<times> die list) list \<Rightarrow> state \<Rightarrow> exn option \<times> state" where
  "explain_names dg n flt [] st = (None, st)"
| "explain_names dg n flt ((name, dies) # rest) st =
    (let dies1 = (case flt of None \<Rightarrow> dies | Some f \<Rightarrow> f name dies (shown st)) in
     case explain_dies dg n name dies1 st of
       (Some e, st1) \<Rightarrow> (Some e, st1)
     | (None, st1) \<Rightarrow> explain_names dg n flt rest st1)"

definition explain :: "typedg \<Rightarrow> nat \<Rightarrow> filter_fn option \<Rightarrow> state \<Rightarrow> exn option \<times> state" where
  "explain dg n flt st = explain_names dg n flt (named_types dg) st"

section \<open>The indexer\<close>

text \<open>
  \<^verbatim>\<open>walk\<close> is a generator: it yields the pairs that \<^verbatim>\<open>dict\<close> collects into the offset map,
  fills the name index and prints a comment for an entry it skips. The state holds the
  output, the name index and the pairs yielded so far. \<^verbatim>\<open>_get_die_name\<close> raises nothing
  but \<^verbatim>\<open>ParseError\<close>, whose message is \<open>message e\<close>.
\<close>

record walk_state =
  w_out :: "printed list"
  w_names :: "(string \<times> die list) list"
  w_pairs :: "(int \<times> die) list"

fun message :: "exn \<Rightarrow> string" where
  "message (ParseError m) = m"
| "message KeyError = []"
| "message TypeError = []"
| "message AttributeError = []"
| "message UnboundLocalError = []"
| "message RecursionError = []"

text \<open>\<^verbatim>\<open>names.setdefault(given_name, set()).add(die)\<close>\<close>

definition names_add :: "string \<Rightarrow> die \<Rightarrow> (string \<times> die list) list \<Rightarrow> (string \<times> die list) list" where
  "names_add name die names =
    (if name \<in> fst ` set names
     then map (\<lambda>(k, ds). if k = name
                           then (k, if offset die \<in> offset ` set ds then ds else ds @ [die])
                           else (k, ds)) names
     else names @ [(name, [die])])"

definition skipped_entry :: "typedg \<Rightarrow> die \<Rightarrow> string \<Rightarrow> printed" where
  "skipped_entry self die m =
    Skipped (''/* skipped '' @ tag die @ '' at '' @ src_location self die @ '': '' @ m @ '' */'')"

text \<open>
  The head of \<^verbatim>\<open>walk\<close>, lines 63 to 70: \<open>False\<close> when the generator returns at line 68,
  before it yields the entry and before it visits the children.
\<close>

definition walk_enter :: "typedg \<Rightarrow> die \<Rightarrow> walk_state \<Rightarrow> bool \<times> walk_state" where
  "walk_enter self die ws =
    (if tag die \<in> fst ` set TAGS_for_types then
       (case get_die_name self die of
          Raise e \<Rightarrow> (False, ws\<lparr>w_out := w_out ws @ [skipped_entry self die (message e)]\<rparr>)
        | Ok given_name \<Rightarrow>
            (True, if truthy given_name
                   then ws\<lparr>w_names := names_add (the given_name) die (w_names ws)\<rparr>
                   else ws))
     else (True, ws))"

fun walk :: "typedg \<Rightarrow> die \<Rightarrow> walk_state \<Rightarrow> walk_state" where
  "walk self (DIE tg off at cs) ws =
    (case walk_enter self (DIE tg off at cs) ws of
       (False, ws1) \<Rightarrow> ws1
     | (True, ws1) \<Rightarrow>
         fold (\<lambda>child w. walk self child w) cs
           (ws1\<lparr>w_pairs := w_pairs ws1 @ [(off - cu_offset self, DIE tg off at cs)]\<rparr>))"

text \<open>
  The language codes \<^verbatim>\<open>DW_LANG_C\<close>, \<^verbatim>\<open>DW_LANG_C89\<close>, \<^verbatim>\<open>DW_LANG_C99\<close> and \<^verbatim>\<open>DW_LANG_C11\<close> of
  the DWARF standard.
\<close>

definition LANGUAGES :: "int list" where
  "LANGUAGES = [0x2, 0x1, 0xc, 0x1d]"

text \<open>
  \<^verbatim>\<open>__init__\<close>, from the unit's base offset, its top entry and the names of the line
  program's file entries. For a unit in another language the source sets
  \<^verbatim>\<open>named_types\<close> only; the other fields are then never read by \<^verbatim>\<open>explain\<close>. \<^verbatim>\<open>dict\<close>
  keeps the last pair of a key.
\<close>

definition TypeDG_init :: "int \<Rightarrow> die \<Rightarrow> string list \<Rightarrow> printed list \<Rightarrow> typedg result \<times> printed list" where
  "TypeDG_init cu_off top_die file_entry outp =
    (case at_language (attributes top_die) of
       None \<Rightarrow> (Raise KeyError, outp)
     | Some lang \<Rightarrow>
         if lang \<notin> set LANGUAGES
         then (Ok \<lparr>cu_offset = cu_off, filedesc = [], offset_to_die = Map.empty, named_types = []\<rparr>, outp)
         else
           (let self = \<lparr>cu_offset = cu_off, filedesc = file_entry,
                        offset_to_die = Map.empty, named_types = []\<rparr>;
                ws = walk self top_die \<lparr>w_out = outp, w_names = [], w_pairs = []\<rparr>
            in (Ok (self\<lparr>offset_to_die := map_of (rev (w_pairs ws)), named_types := w_names ws\<rparr>),
                w_out ws)))"

section \<open>What the claims are stated with\<close>

text \<open>
  The array rule in the words of the specification: the subrange children that carry a
  count, none of them giving \<^verbatim>\<open>[]\<close>, the last of them giving the count otherwise.
\<close>

definition counted :: "die \<Rightarrow> bool" where
  "counted child = (tag child = ''DW_TAG_subrange_type'' \<and> at_count (attributes child) \<noteq> None)"

definition array_suffix :: "die list \<Rightarrow> string" where
  "array_suffix cs =
    (if filter counted cs = [] then ''[]''
     else ''['' @ str_int (the (at_count (attributes (last (filter counted cs))))) @ '']'')"

text \<open>
  \<open>visits st die mi\<close>: a call of \<^verbatim>\<open>track\<close> on \<open>die\<close> gets past the two early returns of
  lines 206 to 210.
\<close>

definition visits :: "state \<Rightarrow> die \<Rightarrow> bool \<Rightarrow> bool" where
  "visits st die mi =
    (shown st (KDie (offset die)) \<noteq> Some Defined \<and>
     \<not> (shown st (KDie (offset die)) = Some Declared \<and> mi))"

text \<open>
  The line of an enumerator whose constant value is present, and the entries that the
  indexer leaves out: an entry of a named kind whose explicit name is not a valid
  identifier is skipped with everything below it; \<open>reached\<close> lists the others in the order
  of the traversal.
\<close>

definition enumerator_text :: "die \<Rightarrow> string" where
  "enumerator_text c =
    tab @ fstr (at_name (attributes c)) @ '' = '' @ str_int (the (at_const_value (attributes c)))"

definition skipped :: "die \<Rightarrow> bool" where
  "skipped die =
    (tag die \<in> fst ` set TAGS_for_types \<and>
     (case at_name (attributes die) of Some name \<Rightarrow> \<not> is_valid_name name | None \<Rightarrow> False))"

fun reached :: "die \<Rightarrow> die list" where
  "reached (DIE tg off at cs) =
    (if skipped (DIE tg off at cs) then []
     else DIE tg off at cs # concat (map (\<lambda>child. reached child) cs))"

text \<open>
  The entries at which the indexer stops (a skipped entry below another one is never
  visited), the comment it prints for such an entry, and the entries that a name index
  holds.
\<close>

fun skipped_at :: "die \<Rightarrow> die list" where
  "skipped_at (DIE tg off at cs) =
    (if skipped (DIE tg off at cs) then [DIE tg off at cs]
     else concat (map (\<lambda>child. skipped_at child) cs))"

definition skip_comment :: "typedg \<Rightarrow> die \<Rightarrow> printed" where
  "skip_comment self d =
    skipped_entry self d
      (''invalid C identifier '' @ [CHR 0x27] @ the (at_name (attributes d)) @ [CHR 0x27])"

definition indexed :: "(string \<times> die list) list \<Rightarrow> die set" where
  "indexed names = (\<Union>(name, ds) \<in> set names. set ds)"

text \<open>
  The tag name that a printed line opens: the opening line of an aggregate's or an
  enumeration's full definition. \<open>advances st st'\<close> is the order of the emission state: an
  entry that is \<^verbatim>\<open>"defined"\<close> stays so, one that is \<^verbatim>\<open>"declared"\<close> stays so or becomes
  \<^verbatim>\<open>"defined"\<close>, a recorded tag name keeps its record, the output only grows, and the full
  definitions in the new output are of distinct tag names, none of them recorded before and
  all of them recorded after.
\<close>

fun opens :: "printed \<Rightarrow> string option" where
  "opens (Opening tg s) = Some tg"
| "opens (EnumOpening tg s) = Some tg"
| "opens (Location s) = None"
| "opens (Typedef s) = None"
| "opens (Forward s) = None"
| "opens (Member s) = None"
| "opens (Padding s) = None"
| "opens (Closing s) = None"
| "opens (EnumBody s) = None"
| "opens (Skipped s) = None"

fun defined_tags :: "printed list \<Rightarrow> string list" where
  "defined_tags [] = []"
| "defined_tags (l # ls) =
    (case opens l of None \<Rightarrow> defined_tags ls | Some tg \<Rightarrow> tg # defined_tags ls)"

definition advances :: "state \<Rightarrow> state \<Rightarrow> bool" where
  "advances st st' =
    ((\<forall>i. shown st (KDie i) = Some Defined \<longrightarrow> shown st' (KDie i) = Some Defined) \<and>
     (\<forall>i. shown st (KDie i) = Some Declared \<longrightarrow>
            shown st' (KDie i) = Some Declared \<or> shown st' (KDie i) = Some Defined) \<and>
     (\<forall>tg. shown st (KTag tg) \<noteq> None \<longrightarrow> shown st' (KTag tg) = shown st (KTag tg)) \<and>
     (\<exists>new. out st' = out st @ new \<and> distinct (defined_tags new) \<and>
        (\<forall>tg \<in> set (defined_tags new). shown st (KTag tg) = None \<and> shown st' (KTag tg) \<noteq> None)))"

definition tracker_advances :: "tracker \<Rightarrow> bool" where
  "tracker_advances rec = (\<forall>d depth mi st. advances st (snd (rec d depth mi st)))"

text \<open>
  A sequence of calls of \<^verbatim>\<open>track\<close> on one dictionary \<^verbatim>\<open>shown\<close>, each with its own
  object, frames, entry, depth and mode; a call that raises leaves its changes behind and
  the next call goes on from them.
\<close>

fun track_calls :: "(typedg \<times> nat \<times> die option \<times> int \<times> bool) list \<Rightarrow> state \<Rightarrow> state" where
  "track_calls [] st = st"
| "track_calls ((dg, n, d, depth, mi) # calls) st =
     track_calls calls (snd (track dg n d depth mi st))"

text \<open>
  The members that the member loop of lines 261 to 275 renders (\<open>located\<close>), those of them
  whose type is a pointer to the aggregate \<open>s\<close> itself, and the line of such a member.
\<close>

definition located :: "die \<Rightarrow> bool" where
  "located c = (tag c = ''DW_TAG_member'' \<and> at_data_member_location (attributes c) \<noteq> None)"

definition self_pointer :: "typedg \<Rightarrow> die \<Rightarrow> die \<Rightarrow> bool" where
  "self_pointer dg s c =
    (case get_type_die dg c of
       None \<Rightarrow> False
     | Some p \<Rightarrow> tag p = ''DW_TAG_pointer_type'' \<and> offset p \<noteq> offset s \<and> get_type_die dg p = Some s)"

definition self_member_line :: "string \<Rightarrow> string \<Rightarrow> die \<Rightarrow> string" where
  "self_member_line stem tg c =
    tab @ stem @ '' '' @ tg @ '' *'' @ or_empty (at_name (attributes c)) @ '';'' @ tab @
    ''/* +0x'' @ hex_int (the (at_data_member_location (attributes c))) @ '' */''"

text \<open>
  A tracker whose result does not depend on its depth argument, and a chain of \<open>n\<close>
  pointers above a base type: entry \<open>k\<close> of the chain, at offset \<open>k\<close>, points to entry
  \<open>k + 1\<close>; entry \<open>n\<close> is the base type.
\<close>

definition depth_free :: "tracker \<Rightarrow> bool" where
  "depth_free rec = (\<forall>d depth depth' mi st. rec d depth mi st = rec d depth' mi st)"

definition chain_die :: "nat \<Rightarrow> nat \<Rightarrow> die" where
  "chain_die n k =
    (if k < n
     then DIE ''DW_TAG_pointer_type'' (int k)
            \<lparr>at_name = None, at_type = Some (int k + 1), at_decl_file = None, at_decl_line = None,
             at_byte_size = None, at_declaration = False, at_const_value = None,
             at_data_member_location = None, at_count = None, at_language = None\<rparr> []
     else DIE ''DW_TAG_base_type'' (int k)
            \<lparr>at_name = Some ''int'', at_type = None, at_decl_file = None, at_decl_line = None,
             at_byte_size = Some 4, at_declaration = False, at_const_value = None,
             at_data_member_location = None, at_count = None, at_language = None\<rparr> [])"

definition chain_dg :: "nat \<Rightarrow> typedg" where
  "chain_dg n =
    \<lparr>cu_offset = 0, filedesc = [],
     offset_to_die = (\<lambda>i. if 0 \<le> i \<and> i \<le> int n then Some (chain_die n (nat i)) else None),
     named_types = []\<rparr>"

text \<open>The pair that \<^verbatim>\<open>walk\<close> yields for an entry.\<close>

definition pair_of :: "typedg \<Rightarrow> die \<Rightarrow> int \<times> die" where
  "pair_of self d = (offset d - cu_offset self, d)"

section \<open>Example entries\<close>

definition no_attrs :: attrs where
  "no_attrs = \<lparr>at_name = None, at_type = None, at_decl_file = None, at_decl_line = None,
     at_byte_size = None, at_declaration = False, at_const_value = None,
     at_data_member_location = None, at_count = None, at_language = None\<rparr>"

definition ex_int :: die where
  "ex_int = DIE ''DW_TAG_base_type'' 16 (no_attrs\<lparr>at_name := Some ''int'', at_byte_size := Some 4\<rparr>) []"

definition ex_int_ptr :: die where
  "ex_int_ptr = DIE ''DW_TAG_pointer_type'' 32 (no_attrs\<lparr>at_type := Some 16\<rparr>) []"

definition ex_subrange :: "int \<Rightarrow> int \<Rightarrow> die" where
  "ex_subrange off n = DIE ''DW_TAG_subrange_type'' off (no_attrs\<lparr>at_count := Some n\<rparr>) []"

definition ex_array :: die where
  "ex_array = DIE ''DW_TAG_array_type'' 48 (no_attrs\<lparr>at_type := Some 16\<rparr>) [ex_subrange 52 4]"

definition ex_subroutine :: die where
  "ex_subroutine = DIE ''DW_TAG_subroutine_type'' 64 no_attrs []"

definition ex_fn_ptr :: die where
  "ex_fn_ptr = DIE ''DW_TAG_pointer_type'' 80 (no_attrs\<lparr>at_type := Some 64\<rparr>) []"

definition ex_const :: die where
  "ex_const = DIE ''DW_TAG_const_type'' 96 (no_attrs\<lparr>at_type := Some 16\<rparr>) []"

text \<open>An array with two counted subranges, and one whose element type has no rule.\<close>

definition ex_matrix :: die where
  "ex_matrix = DIE ''DW_TAG_array_type'' 112 (no_attrs\<lparr>at_type := Some 16\<rparr>)
     [ex_subrange 116 3, DIE ''DW_TAG_subrange_type'' 118 no_attrs [], ex_subrange 120 4]"

text \<open>An enumeration whose first enumerator has the value zero.\<close>

definition ex_enum :: die where
  "ex_enum = DIE ''DW_TAG_enumeration_type'' 176 (no_attrs\<lparr>at_name := Some ''color''\<rparr>)
     [DIE ''DW_TAG_enumerator'' 180 (no_attrs\<lparr>at_name := Some ''RED'', at_const_value := Some 0\<rparr>) [],
      DIE ''DW_TAG_enumerator'' 184 (no_attrs\<lparr>at_name := Some ''GREEN'', at_const_value := Some 1\<rparr>) []]"

definition empty_state :: state where
  "empty_state = \<lparr>out = [], shown = Map.empty\<rparr>"

text \<open>
  A unit in C99 whose second child is a structure with a dollar sign in its name.
\<close>

definition ex_bad_struct :: die where
  "ex_bad_struct = DIE ''DW_TAG_structure_type'' 32
     (no_attrs\<lparr>at_name := Some ''bad$name'', at_byte_size := Some 4\<rparr>)
     [DIE ''DW_TAG_member'' 36
        (no_attrs\<lparr>at_name := Some ''x'', at_type := Some 16, at_data_member_location := Some 0\<rparr>) []]"

definition ex_good_struct :: die where
  "ex_good_struct = DIE ''DW_TAG_structure_type'' 48
     (no_attrs\<lparr>at_name := Some ''good'', at_byte_size := Some 4\<rparr>)
     [DIE ''DW_TAG_member'' 52
        (no_attrs\<lparr>at_name := Some ''y'', at_type := Some 16, at_data_member_location := Some 0\<rparr>) []]"

definition ex_unit :: die where
  "ex_unit = DIE ''DW_TAG_compile_unit'' 11 (no_attrs\<lparr>at_name := Some ''a.c'', at_language := Some 0xc\<rparr>)
     [ex_int, ex_bad_struct, ex_good_struct]"

text \<open>A list node: a structure with a value and a pointer to the structure itself.\<close>

definition ex_node :: die where
  "ex_node = DIE ''DW_TAG_structure_type'' 192
     (no_attrs\<lparr>at_name := Some ''node'', at_byte_size := Some 16,
                at_decl_file := Some 1, at_decl_line := Some 3\<rparr>)
     [DIE ''DW_TAG_member'' 196
        (no_attrs\<lparr>at_name := Some ''val'', at_type := Some 16, at_data_member_location := Some 0\<rparr>) [],
      DIE ''DW_TAG_member'' 200
        (no_attrs\<lparr>at_name := Some ''next'', at_type := Some 208, at_data_member_location := Some 8\<rparr>) []]"

definition ex_node_ptr :: die where
  "ex_node_ptr = DIE ''DW_TAG_pointer_type'' 208 (no_attrs\<lparr>at_type := Some 192\<rparr>) []"

text \<open>
  A second entry for a structure of the same name, as another unit would have it, and a
  state in which the name is recorded and the first entry is \<^verbatim>\<open>"defined"\<close>.
\<close>

definition ex_node_twin :: die where
  "ex_node_twin = DIE ''DW_TAG_structure_type'' 224
     (no_attrs\<lparr>at_name := Some ''node'', at_byte_size := Some 16\<rparr>)
     [DIE ''DW_TAG_member'' 228
        (no_attrs\<lparr>at_name := Some ''val'', at_type := Some 16, at_data_member_location := Some 0\<rparr>) []]"

definition ex_defined :: state where
  "ex_defined = \<lparr>out = [], shown = [KTag ''node'' \<mapsto> Entry 192, KDie 192 \<mapsto> Defined]\<rparr>"

text \<open>
  A unit in C99, at base offset 0, as a compiler that accepts dollar signs in identifiers
  gives it for
  \<^verbatim>\<open>typedef int my$int; struct first { my$int a$b; }; struct second { int y; };\<close>
\<close>

definition ex_bad_typedef :: die where
  "ex_bad_typedef = DIE ''DW_TAG_typedef'' 24 (no_attrs\<lparr>at_name := Some ''my$int'', at_type := Some 16\<rparr>) []"

definition ex_first :: die where
  "ex_first = DIE ''DW_TAG_structure_type'' 32
     (no_attrs\<lparr>at_name := Some ''first'', at_byte_size := Some 4\<rparr>)
     [DIE ''DW_TAG_member'' 36
        (no_attrs\<lparr>at_name := Some ''a$b'', at_type := Some 24, at_data_member_location := Some 0\<rparr>) []]"

definition ex_second :: die where
  "ex_second = DIE ''DW_TAG_structure_type'' 48
     (no_attrs\<lparr>at_name := Some ''second'', at_byte_size := Some 4\<rparr>)
     [DIE ''DW_TAG_member'' 52
        (no_attrs\<lparr>at_name := Some ''y'', at_type := Some 16, at_data_member_location := Some 0\<rparr>) []]"

definition ex_dollar_unit :: die where
  "ex_dollar_unit = DIE ''DW_TAG_compile_unit'' 11
     (no_attrs\<lparr>at_name := Some ''a.c'', at_language := Some 0xc\<rparr>)
     [ex_int, ex_bad_typedef, ex_first, ex_second]"

definition ex_dg :: typedg where
  "ex_dg = \<lparr>cu_offset = 0, filedesc = [''a.c''],
     offset_to_die = map_of [(16, ex_int), (32, ex_int_ptr), (48, ex_array), (64, ex_subroutine),
       (80, ex_fn_ptr), (96, ex_const), (112, ex_matrix),
       (176, ex_enum), (192, ex_node), (208, ex_node_ptr)],
     named_types = []\<rparr>"

section \<open>Names\<close>

text \<open>
  The pattern matches exactly the names with a character outside the class, and the only
  exception of \<^verbatim>\<open>_get_die_name\<close> is \<^verbatim>\<open>ParseError\<close>.
\<close>

lemma goodchar_not_newline: "goodchar c \<Longrightarrow> c \<noteq> CHR 0x0A"
  by (auto simp: goodchar_def)

lemma badchars_match_iff: "badchars_match name \<longleftrightarrow> (\<exists>c \<in> set name. \<not> goodchar c)"
  by (induction name) (auto dest: goodchar_not_newline)

lemma is_valid_name_iff: "is_valid_name name \<longleftrightarrow> (\<forall>c \<in> set name. goodchar c)"
  by (simp add: is_valid_name_def badchars_match_iff)

lemma get_die_name_raises:
  "get_die_name dg die = Raise e \<Longrightarrow> \<exists>m. e = ParseError m"
  by (auto simp: get_die_name_def split: option.splits if_splits)

lemma get_die_name_gensym_raises:
  "get_die_name_gensym dg die = Raise e \<Longrightarrow> \<exists>m. e = ParseError m"
  by (auto simp: get_die_name_gensym_def get_stem_def split: option.splits if_splits)

section \<open>Unfolding gen\_decl by kind\<close>

lemma gen_decl_Suc: "gen_decl dg (Suc n) d name = gen_decl_body dg (gen_decl dg n) d name"
  by simp

declare gen_decl.simps(2) [simp del]

lemma gen_decl_void:
  "gen_decl dg (Suc n) None name =
     (case name of None \<Rightarrow> Ok (Some ''void'') | Some nm \<Rightarrow> Ok (Some (''void '' @ nm)))"
  by (simp add: gen_decl_Suc gen_decl_body_def)

lemma gen_decl_base:
  assumes "tag die = ''DW_TAG_base_type''"
  shows "gen_decl dg (Suc n) (Some die) name =
     (if truthy name then
        (case get_die_name dg die of
           Raise e \<Rightarrow> Raise e
         | Ok None \<Rightarrow> Raise TypeError
         | Ok (Some s) \<Rightarrow> Ok (Some (s @ '' '' @ the name)))
      else get_die_name dg die)"
  using assms by (simp add: gen_decl_Suc gen_decl_body_def)

lemma gen_decl_pointer:
  assumes "tag die = ''DW_TAG_pointer_type''"
  shows "gen_decl dg (Suc n) (Some die) name =
     gen_decl dg n (get_type_die dg die) (Some (''*'' @ or_empty name))"
  using assms by (simp add: gen_decl_Suc gen_decl_body_def)

lemma gen_decl_subroutine:
  assumes "tag die = ''DW_TAG_subroutine_type''"
  shows "gen_decl dg (Suc n) (Some die) name =
    (case gen_params (gen_decl dg n) dg (children die) [] of
       Raise e \<Rightarrow> Raise e
     | Ok fparams0 \<Rightarrow>
         (case (if fparams0 = []
                then (case gen_decl dg n None None of
                        Raise e \<Rightarrow> Raise e
                      | Ok p \<Rightarrow> Ok [p])
                else Ok fparams0) of
            Raise e \<Rightarrow> Raise e
          | Ok fparams \<Rightarrow>
              (case gen_decl dg n (get_type_die dg die) None of
                 Raise e \<Rightarrow> Raise e
               | Ok None \<Rightarrow> Raise TypeError
               | Ok (Some ret) \<Rightarrow>
                   (case name of
                      None \<Rightarrow> Raise TypeError
                    | Some nm \<Rightarrow>
                        if None \<in> set fparams then Raise TypeError
                        else Ok (Some (ret @ '' ('' @ nm @ '')('' @
                                   join '', '' (map the fparams) @ '')''))))))"
  using assms by (simp add: gen_decl_Suc gen_decl_body_def)

lemma gen_decl_array:
  assumes "tag die = ''DW_TAG_array_type''"
  shows "gen_decl dg (Suc n) (Some die) name =
    (case gen_decl dg n (get_type_die dg die) None of
       Raise e \<Rightarrow> Raise e
     | Ok None \<Rightarrow> Raise TypeError
     | Ok (Some elem) \<Rightarrow>
         (case name of
            None \<Rightarrow> Raise TypeError
          | Some nm \<Rightarrow> Ok (Some (elem @ '' '' @ nm @ array_count (children die) ''[]''))))"
  using assms by (simp add: gen_decl_Suc gen_decl_body_def)

lemma gen_decl_qualifier:
  assumes "map_of TAGS_for_qualifiers (tag die) = Some q"
  shows "gen_decl dg (Suc n) (Some die) name =
    (case gen_decl dg n (get_type_die dg die) name of
       Raise e \<Rightarrow> Raise e
     | Ok None \<Rightarrow> Raise TypeError
     | Ok (Some s) \<Rightarrow>
         Ok (Some ((if tag die = ''DW_TAG_restrict_type'' then [] else q @ '' '') @ s)))"
proof -
  from assms have "tag die \<in> {''DW_TAG_const_type'', ''DW_TAG_volatile_type'',
      ''DW_TAG_restrict_type'', ''DW_TAG_atomic_type''}"
    by (auto simp: TAGS_for_qualifiers_def split: if_splits)
  then show ?thesis
    using assms by (auto simp: gen_decl_Suc gen_decl_body_def)
qed

lemma gen_decl_named:
  assumes "map_of TAGS_for_types (tag die) = Some (Some stem)"
  shows "gen_decl dg (Suc n) (Some die) name =
    (case get_die_name_gensym dg die of
       Raise e \<Rightarrow> Raise e
     | Ok nm \<Rightarrow>
         Ok (Some ((if tag die = ''DW_TAG_typedef'' then [] else stem @ '' '') @ nm @
                   (if truthy name then '' '' @ the name else []))))"
proof -
  from assms have "tag die \<in> {''DW_TAG_enumeration_type'', ''DW_TAG_structure_type'',
      ''DW_TAG_class_type'', ''DW_TAG_typedef'', ''DW_TAG_union_type''}"
    by (auto simp: TAGS_for_types_def split: if_splits)
  then show ?thesis
    using assms by (auto simp: gen_decl_Suc gen_decl_body_def get_stem_def TAGS_for_qualifiers_def)
qed

section \<open>The declarator synthesizer\<close>

lemma str_int_4: "str_int 4 = ''4''"
  by (simp add: str_int_def dec_nat.simps digit_char_def)

lemma is_valid_name_int: "is_valid_name ''int''"
  by (simp add: is_valid_name_def goodchar_def)

text \<open>
  Claim C6. The synthesizer gives these exact texts, with three frames or more:
  \<^verbatim>\<open>int *x\<close> for a pointer to the base type \<^verbatim>\<open>int\<close> and the identifier \<^verbatim>\<open>x\<close>;
  \<^verbatim>\<open>int arr[4]\<close> for an array of \<^verbatim>\<open>int\<close> whose subrange has the count 4 and the identifier
  \<^verbatim>\<open>arr\<close>; \<^verbatim>\<open>void (*fp)(void)\<close> for a pointer to a subroutine type without a return type and
  without formal parameters and the identifier \<^verbatim>\<open>fp\<close>; \<^verbatim>\<open>const int c\<close> for a
  const-qualified \<^verbatim>\<open>int\<close> and the identifier \<^verbatim>\<open>c\<close>.
\<close>

theorem C6_synthesis_literals:
  assumes b: "tag b = ''DW_TAG_base_type''" "at_name (attributes b) = Some ''int''"
    and p: "tag p = ''DW_TAG_pointer_type''" "get_type_die dg p = Some b"
    and a: "tag a = ''DW_TAG_array_type''" "get_type_die dg a = Some b"
           "children a = [sr]" "tag sr = ''DW_TAG_subrange_type''" "at_count (attributes sr) = Some 4"
    and f: "tag fp = ''DW_TAG_pointer_type''" "get_type_die dg fp = Some s"
           "tag s = ''DW_TAG_subroutine_type''" "get_type_die dg s = None"
           "\<forall>ch \<in> set (children s). tag ch \<noteq> ''DW_TAG_formal_parameter''"
    and c: "tag c = ''DW_TAG_const_type''" "get_type_die dg c = Some b"
  shows "gen_decl dg (Suc (Suc (Suc n))) (Some p) (Some ''x'') = Ok (Some ''int *x'') \<and>
         gen_decl dg (Suc (Suc (Suc n))) (Some a) (Some ''arr'') = Ok (Some ''int arr[4]'') \<and>
         gen_decl dg (Suc (Suc (Suc n))) (Some fp) (Some ''fp'') = Ok (Some ''void (*fp)(void)'') \<and>
         gen_decl dg (Suc (Suc (Suc n))) (Some c) (Some ''c'') = Ok (Some ''const int c'')"
proof -
  have nm: "get_die_name dg b = Ok (Some ''int'')"
    using b by (simp add: get_die_name_def is_valid_name_int)
  have base: "gen_decl dg (Suc m) (Some b) (Some nm') = Ok (Some (''int '' @ nm'))" if "nm' \<noteq> []" for m nm'
    using that by (simp add: gen_decl_base [OF b(1)] nm truthy_def)
  have base0: "gen_decl dg (Suc m) (Some b) None = Ok (Some ''int'')" for m
    by (simp add: gen_decl_base [OF b(1)] nm truthy_def)
  have 1: "gen_decl dg (Suc (Suc (Suc n))) (Some p) (Some ''x'') = Ok (Some ''int *x'')"
    by (simp add: gen_decl_pointer [OF p(1)] p(2) base or_empty_def truthy_def)
  have 2: "gen_decl dg (Suc (Suc (Suc n))) (Some a) (Some ''arr'') = Ok (Some ''int arr[4]'')"
    by (simp add: gen_decl_array [OF a(1)] a base0 str_int_4)
  have params: "gen_params rec dg cs acc = Ok acc"
    if "\<forall>ch \<in> set cs. tag ch \<noteq> ''DW_TAG_formal_parameter''" for rec cs acc
    using that by (induction cs) simp_all
  have 3: "gen_decl dg (Suc (Suc (Suc n))) (Some fp) (Some ''fp'') = Ok (Some ''void (*fp)(void)'')"
    by (simp add: gen_decl_pointer [OF f(1)] f(2) gen_decl_subroutine [OF f(3)] f(4)
        params [OF f(5)] gen_decl_void or_empty_def truthy_def)
  have 4: "gen_decl dg (Suc (Suc (Suc n))) (Some c) (Some ''c'') = Ok (Some ''const int c'')"
    by (simp add: gen_decl_qualifier [where q = "''const''"] c TAGS_for_qualifiers_def base)
  from 1 2 3 4 show ?thesis by simp
qed

lemma ex_tags [simp]:
  "tag ex_int = ''DW_TAG_base_type''" "tag ex_int_ptr = ''DW_TAG_pointer_type''"
  "tag ex_array = ''DW_TAG_array_type''" "tag ex_subroutine = ''DW_TAG_subroutine_type''"
  "tag ex_fn_ptr = ''DW_TAG_pointer_type''" "tag ex_const = ''DW_TAG_const_type''"
  "tag ex_matrix = ''DW_TAG_array_type''"
  by (simp_all add: ex_int_def ex_int_ptr_def ex_array_def ex_subroutine_def ex_fn_ptr_def
      ex_const_def ex_matrix_def)

lemma ex_types [simp]:
  "get_type_die ex_dg ex_int_ptr = Some ex_int" "get_type_die ex_dg ex_array = Some ex_int"
  "get_type_die ex_dg ex_subroutine = None" "get_type_die ex_dg ex_fn_ptr = Some ex_subroutine"
  "get_type_die ex_dg ex_const = Some ex_int" "get_type_die ex_dg ex_matrix = Some ex_int"
  by (simp_all add: get_type_die_def ex_dg_def ex_int_ptr_def ex_array_def ex_subroutine_def
      ex_fn_ptr_def ex_const_def ex_matrix_def no_attrs_def)

text \<open>
  The four literals on the example entries.
\<close>

theorem C6_synthesis_literals_witness:
  "gen_decl ex_dg 3 (Some ex_int_ptr) (Some ''x'') = Ok (Some ''int *x'') \<and>
   gen_decl ex_dg 3 (Some ex_array) (Some ''arr'') = Ok (Some ''int arr[4]'') \<and>
   gen_decl ex_dg 3 (Some ex_fn_ptr) (Some ''fp'') = Ok (Some ''void (*fp)(void)'') \<and>
   gen_decl ex_dg 3 (Some ex_const) (Some ''c'') = Ok (Some ''const int c'')"
  using C6_synthesis_literals [of ex_int ex_int_ptr ex_dg ex_array "ex_subrange 52 4"
      ex_fn_ptr ex_subroutine ex_const 0]
  by (simp add: numeral_3_eq_3)
     (simp add: ex_int_def ex_array_def ex_subrange_def ex_subroutine_def no_attrs_def)

lemma array_count_suffix:
  "array_count cs acc =
    (if filter counted cs = [] then acc
     else ''['' @ str_int (the (at_count (attributes (last (filter counted cs))))) @ '']'')"
  by (induction cs arbitrary: acc) (auto simp: counted_def)

text \<open>
  Claim C7. For an array entry and an identifier, \<^verbatim>\<open>gen_decl\<close> gives the declarator of the
  element type, the identifier and then \<^verbatim>\<open>[]\<close> when no subrange child carries a count, and
  the count of the last subrange child that carries one otherwise (\<open>array_suffix\<close>); a
  failure of the element type's declarator is passed on.
\<close>

theorem C7_array_count:
  assumes "tag die = ''DW_TAG_array_type''"
  shows "gen_decl dg (Suc n) (Some die) (Some nm) =
    (case gen_decl dg n (get_type_die dg die) None of
       Raise e \<Rightarrow> Raise e
     | Ok None \<Rightarrow> Raise TypeError
     | Ok (Some elem) \<Rightarrow> Ok (Some (elem @ '' '' @ nm @ array_suffix (children die))))"
  by (simp add: gen_decl_array [OF assms] array_count_suffix array_suffix_def
      split: result.splits option.splits)

text \<open>
  An array with the counts 3 and 4 renders the 4; an array without subranges renders
  \<^verbatim>\<open>[]\<close>.
\<close>

theorem C7_array_count_witness:
  "tag ex_matrix = ''DW_TAG_array_type'' \<and>
   map counted (children ex_matrix) = [True, False, True] \<and>
   gen_decl ex_dg 2 (Some ex_matrix) (Some ''m'') = Ok (Some ''int m[4]'') \<and>
   gen_decl ex_dg 2 (Some (DIE ''DW_TAG_array_type'' 160 (no_attrs\<lparr>at_type := Some 16\<rparr>) []))
     (Some ''v'') = Ok (Some ''int v[]'')"
proof -
  have e: "gen_decl ex_dg (Suc 0) (Some ex_int) None = Ok (Some ''int'')"
    by (simp add: gen_decl_base truthy_def get_die_name_def ex_int_def no_attrs_def is_valid_name_int)
  have m: "map counted (children ex_matrix) = [True, False, True]"
    by (simp add: ex_matrix_def counted_def ex_subrange_def no_attrs_def)
  have t: "get_type_die ex_dg (DIE ''DW_TAG_array_type'' 160 (no_attrs\<lparr>at_type := Some 16\<rparr>) []) = Some ex_int"
    by (simp add: get_type_die_def ex_dg_def no_attrs_def)
  have 1: "gen_decl ex_dg 2 (Some ex_matrix) (Some ''m'') = Ok (Some ''int m[4]'')"
    using C7_array_count [of ex_matrix ex_dg "Suc 0" "''m''"] e
    by (simp add: numeral_2_eq_2 array_suffix_def)
       (simp add: ex_matrix_def counted_def ex_subrange_def no_attrs_def str_int_4)
  have 2: "gen_decl ex_dg 2 (Some (DIE ''DW_TAG_array_type'' 160 (no_attrs\<lparr>at_type := Some 16\<rparr>) []))
     (Some ''v'') = Ok (Some ''int v[]'')"
    using C7_array_count [of "DIE ''DW_TAG_array_type'' 160 (no_attrs\<lparr>at_type := Some 16\<rparr>) []" ex_dg "Suc 0" "''v''"] e t
    by (simp add: numeral_2_eq_2 array_suffix_def)
  from m 1 2 show ?thesis by simp
qed

text \<open>
  Claim C10. Without an identifier \<^verbatim>\<open>gen_decl\<close> never returns a text for an array or a
  subroutine-type entry: once the declarators it builds first (the element type's; the
  parameters' and the return type's) have been built, the concatenation with the absent
  identifier raises \<open>TypeError\<close>; only the failure of one of those nested calls is raised
  in its place.
\<close>

theorem C10_no_identifier:
  "(tag die = ''DW_TAG_array_type'' \<longrightarrow>
      gen_decl dg (Suc n) (Some die) None =
        (case gen_decl dg n (get_type_die dg die) None of
           Raise e \<Rightarrow> Raise e
         | Ok elem \<Rightarrow> Raise TypeError)) \<and>
   (tag die = ''DW_TAG_subroutine_type'' \<longrightarrow>
      gen_decl dg (Suc (Suc n)) (Some die) None =
        (case gen_params (gen_decl dg (Suc n)) dg (children die) [] of
           Raise e \<Rightarrow> Raise e
         | Ok fparams \<Rightarrow>
             (case gen_decl dg (Suc n) (get_type_die dg die) None of
                Raise e \<Rightarrow> Raise e
              | Ok ret \<Rightarrow> Raise TypeError)))"
  by (simp add: gen_decl_array gen_decl_subroutine gen_decl_void
      split: result.splits option.splits)

text \<open>
  The array of \<^verbatim>\<open>int\<close> and the subroutine type of the examples, without identifier.
\<close>

theorem C10_no_identifier_witness:
  "tag ex_array = ''DW_TAG_array_type'' \<and> tag ex_subroutine = ''DW_TAG_subroutine_type'' \<and>
   gen_decl ex_dg 2 (Some ex_array) None = Raise TypeError \<and>
   gen_decl ex_dg 2 (Some ex_subroutine) None = Raise TypeError"
proof -
  have e: "gen_decl ex_dg (Suc 0) (Some ex_int) None = Ok (Some ''int'')"
    by (simp add: gen_decl_base truthy_def get_die_name_def ex_int_def no_attrs_def is_valid_name_int)
  have c: "children ex_subroutine = []"
    by (simp add: ex_subroutine_def)
  show ?thesis
    using C10_no_identifier [of ex_array ex_dg "Suc 0"] C10_no_identifier [of ex_subroutine ex_dg 0] e c
    by (simp add: numeral_2_eq_2 gen_decl_void)
qed

section \<open>Unfolding track by kind\<close>

lemma track_Suc:
  "track dg (Suc n) d depth mi st = track_body dg (track dg n) (gen_decl dg n) d depth mi st"
  by simp

declare track.simps(2) [simp del]

lemma track_None: "track dg (Suc n) None depth mi st = (None, st)"
  by (simp add: track_Suc track_body_def)

lemma track_defined:
  "shown st (KDie (offset die)) = Some Defined \<Longrightarrow> track dg (Suc n) (Some die) depth mi st = (None, st)"
  by (simp add: track_Suc track_body_def)

lemma track_declared:
  "shown st (KDie (offset die)) = Some Declared \<Longrightarrow> track dg (Suc n) (Some die) depth True st = (None, st)"
  by (simp add: track_Suc track_body_def)

lemma track_base:
  "tag die = ''DW_TAG_base_type'' \<Longrightarrow> visits st die mi \<Longrightarrow>
   track dg (Suc n) (Some die) depth mi st = final_write die (Next False, st)"
  by (auto simp: track_Suc track_body_def visits_def Let_def)

lemma track_pointer_type:
  "tag die = ''DW_TAG_pointer_type'' \<Longrightarrow> visits st die mi \<Longrightarrow>
   track dg (Suc n) (Some die) depth mi st =
     final_write die (track_pointer (track dg n) dg die (depth + 1) st)"
  by (auto simp: track_Suc track_body_def visits_def Let_def)

lemma track_aggregate_type:
  "tag die \<in> {''DW_TAG_structure_type'', ''DW_TAG_class_type'', ''DW_TAG_union_type''} \<Longrightarrow>
   visits st die mi \<Longrightarrow>
   track dg (Suc n) (Some die) depth mi st =
     final_write die (track_aggregate (track dg n) (gen_decl dg n) dg die (depth + 1) mi st)"
  by (auto simp: track_Suc track_body_def visits_def Let_def TAGS_for_qualifiers_def)

lemma track_enumeration_type:
  "tag die = ''DW_TAG_enumeration_type'' \<Longrightarrow> visits st die mi \<Longrightarrow>
   track dg (Suc n) (Some die) depth mi st =
     final_write die (track_enumeration (gen_decl dg n) dg die st)"
  by (auto simp: track_Suc track_body_def visits_def Let_def TAGS_for_qualifiers_def)

lemma get_die_name_Ok:
  "get_die_name dg c = Ok nm \<Longrightarrow> nm = at_name (attributes c)"
  by (auto simp: get_die_name_def split: option.splits if_splits)

section \<open>Enumerations\<close>

lemma enum_members_present:
  assumes "\<forall>c \<in> set cs. tag c = ''DW_TAG_enumerator'' \<longrightarrow>
             at_const_value (attributes c) \<noteq> None \<and> (\<exists>nm. get_die_name dg c = Ok nm)"
  shows "enum_members dg cs acc =
           Ok (acc @ map enumerator_text (filter (\<lambda>c. tag c = ''DW_TAG_enumerator'') cs))"
  using assms
proof (induction cs arbitrary: acc)
  case Nil
  then show ?case by simp
next
  case (Cons c cs)
  show ?case
  proof (cases "tag c = ''DW_TAG_enumerator''")
    case False
    with Cons show ?thesis by simp
  next
    case True
    with Cons.prems obtain v nm where v: "at_const_value (attributes c) = Some v"
      and nm: "get_die_name dg c = Ok nm"
      by auto
    from nm have "nm = at_name (attributes c)" by (rule get_die_name_Ok)
    with True v nm Cons show ?thesis
      by (simp add: attribute_truthy_def enumerator_text_def)
  qed
qed

lemma gen_decl_enum:
  assumes "tag die = ''DW_TAG_enumeration_type''" "get_die_name_gensym dg die = Ok tg"
  shows "gen_decl dg (Suc n) (Some die) None = Ok (Some (''enum '' @ tg))"
  using assms by (simp add: gen_decl_named [where stem = "''enum''"] TAGS_for_types_def truthy_def)

text \<open>
  Claim C8, amended. When an enumeration is emitted, every enumerator child whose
  constant value is present prints as \<^verbatim>\<open>name = value\<close>, a value of zero included: the test of
  line 300 is on the attribute, which is always true, not on its value. The theorem gives
  the whole call: the three lines printed and the two entries of \<^verbatim>\<open>shown\<close>.
\<close>

theorem C8_enumerators:
  assumes "tag die = ''DW_TAG_enumeration_type''"
    and "visits st die mi"
    and "get_die_name_gensym dg die = Ok tg"
    and "shown st (KTag tg) = None"
    and "\<forall>c \<in> set (children die). tag c = ''DW_TAG_enumerator'' \<longrightarrow>
           at_const_value (attributes c) \<noteq> None \<and> (\<exists>nm. get_die_name dg c = Ok nm)"
  shows "track dg (Suc (Suc n)) (Some die) depth mi st =
    (None,
     set_shown (KDie (offset die)) Defined
       (print_line (Closing ''};'')
         (print_line (EnumBody (join ('','' @ newline)
             (map enumerator_text (filter (\<lambda>c. tag c = ''DW_TAG_enumerator'') (children die)))))
           (print_line (EnumOpening tg (''enum '' @ tg @ '' {''))
             (set_shown (KTag tg) (Entry (offset die)) st)))))"
  using assms
  by (simp add: track_enumeration_type track_enumeration_def enum_members_present
      gen_decl_enum final_write_def)

lemma is_valid_name_examples:
  "is_valid_name ''color''" "is_valid_name ''RED''" "is_valid_name ''GREEN''"
  "is_valid_name ''good''" "\<not> is_valid_name ''bad$name''" "is_valid_name ''x''" "is_valid_name ''y''"
  "is_valid_name ''a.c'' = False"
  by (simp_all add: is_valid_name_def goodchar_def)

lemma str_int_small: "str_int 0 = ''0''" "str_int 1 = ''1''"
  by (simp_all add: str_int_def dec_nat.simps digit_char_def)

lemma ex_enum_facts:
  "tag ex_enum = ''DW_TAG_enumeration_type''"
  "get_die_name_gensym ex_dg ex_enum = Ok ''color''"
  "\<forall>c \<in> set (children ex_enum). tag c = ''DW_TAG_enumerator'' \<longrightarrow>
           at_const_value (attributes c) \<noteq> None \<and> (\<exists>nm. get_die_name ex_dg c = Ok nm)"
  "map enumerator_text (filter (\<lambda>c. tag c = ''DW_TAG_enumerator'') (children ex_enum)) =
     [tab @ ''RED = 0'', tab @ ''GREEN = 1'']"
  "visits empty_state ex_enum False"
  by (simp_all add: ex_enum_def get_die_name_gensym_def get_die_name_def no_attrs_def
      is_valid_name_examples enumerator_text_def fstr_def str_int_small visits_def empty_state_def)

text \<open>
  Claim C8 says that a constant value of zero renders as the bare name. The enumerator
  \<^verbatim>\<open>RED\<close> of the example has the value zero and prints as \<^verbatim>\<open>RED = 0\<close>.
\<close>

theorem C8_counterexample:
  "map text_of (out (snd (track ex_dg 2 (Some ex_enum) 0 False empty_state))) =
     [''enum color {'', tab @ ''RED = 0,'' @ newline @ tab @ ''GREEN = 1'', ''};'']"
  by code_simp

text \<open>
  The example enumeration, from the empty state.
\<close>

theorem C8_enumerators_witness:
  "tag ex_enum = ''DW_TAG_enumeration_type'' \<and> visits empty_state ex_enum False \<and>
   get_die_name_gensym ex_dg ex_enum = Ok ''color'' \<and> shown empty_state (KTag ''color'') = None \<and>
   out (snd (track ex_dg 2 (Some ex_enum) 0 False empty_state)) =
     [EnumOpening ''color'' ''enum color {'',
      EnumBody (tab @ ''RED = 0,'' @ newline @ tab @ ''GREEN = 1''),
      Closing ''};''] \<and>
   fst (track ex_dg 2 (Some ex_enum) 0 False empty_state) = None"
  using C8_enumerators [of ex_enum empty_state False ex_dg "''color''" 0 0]
  by (simp add: ex_enum_facts numeral_2_eq_2)
     (simp add: empty_state_def print_line_def set_shown_def)

section \<open>The indexer\<close>

lemma walk_enter_skipped:
  "skipped die \<Longrightarrow> fst (walk_enter self die ws) = False \<and> w_pairs (snd (walk_enter self die ws)) = w_pairs ws"
  by (auto simp: skipped_def walk_enter_def get_die_name_def split: option.splits)

lemma walk_enter_kept:
  "\<not> skipped die \<Longrightarrow> fst (walk_enter self die ws) = True \<and> w_pairs (snd (walk_enter self die ws)) = w_pairs ws"
  by (auto simp: skipped_def walk_enter_def get_die_name_def split: option.splits)

lemma fold_walk_pairs:
  assumes "\<And>c ws. c \<in> set cs \<Longrightarrow> w_pairs (walk self c ws) = w_pairs ws @ map (pair_of self) (reached c)"
  shows "w_pairs (fold (\<lambda>child w. walk self child w) cs ws) =
           w_pairs ws @ map (pair_of self) (concat (map (\<lambda>child. reached child) cs))"
  using assms by (induction cs arbitrary: ws) simp_all

lemma walk_pairs:
  "w_pairs (walk self d ws) = w_pairs ws @ map (pair_of self) (reached d)"
proof (induction d arbitrary: ws)
  case (DIE tg off at cs)
  show ?case
  proof (cases "skipped (DIE tg off at cs)")
    case True
    from walk_enter_skipped [OF True, of self ws] show ?thesis
      using True by (cases "walk_enter self (DIE tg off at cs) ws") simp
  next
    case False
    have f: "w_pairs (fold (\<lambda>child w. walk self child w) cs ws') =
           w_pairs ws' @ map (pair_of self) (concat (map (\<lambda>child. reached child) cs))" for ws'
      by (rule fold_walk_pairs) (rule DIE.IH)
    from walk_enter_kept [OF False, of self ws] show ?thesis
      using False by (cases "walk_enter self (DIE tg off at cs) ws") (simp add: f pair_of_def)
  qed
qed

lemma map_of_rev_distinct:
  assumes "distinct (map fst xs)"
  shows "map_of (rev xs) k = Some v \<longleftrightarrow> (k, v) \<in> set xs"
proof -
  from assms have "distinct (map fst (rev xs))"
    by (simp add: rev_map [symmetric])
  then have "map_of (rev xs) k = Some v \<longleftrightarrow> (k, v) \<in> set (rev xs)"
    by (rule map_of_eq_Some_iff)
  then show ?thesis by simp
qed

lemma pair_of_fun: "pair_of self = (\<lambda>d. (offset d - cu_offset self, d))"
  by (rule ext) (simp add: pair_of_def)

lemma init_supported:
  assumes "at_language (attributes top_die) = Some lang" "lang \<in> set LANGUAGES"
  shows "fst (TypeDG_init cu top_die files outp) =
    Ok \<lparr>cu_offset = cu, filedesc = files,
        offset_to_die = map_of (rev (map (\<lambda>d. (offset d - cu, d)) (reached top_die))),
        named_types = w_names (walk \<lparr>cu_offset = cu, filedesc = files, offset_to_die = Map.empty,
                                      named_types = []\<rparr> top_die
                                 \<lparr>w_out = outp, w_names = [], w_pairs = []\<rparr>)\<rparr>"
  using assms by (simp add: TypeDG_init_def Let_def walk_pairs pair_of_fun)

lemma init_offset_map:
  assumes "at_language (attributes top_die) = Some lang" "lang \<in> set LANGUAGES"
    and "distinct (map offset (reached top_die))"
    and "fst (TypeDG_init cu top_die files outp) = Ok dg"
  shows "offset_to_die dg k = Some d \<longleftrightarrow> d \<in> set (reached top_die) \<and> k = offset d - cu"
proof -
  let ?ps = "map (\<lambda>d. (offset d - cu, d)) (reached top_die)"
  have "map fst ?ps = map (\<lambda>i. i - cu) (map offset (reached top_die))"
    by simp
  moreover have "distinct (map (\<lambda>i. i - cu) (map offset (reached top_die)))"
    using assms(3) by (simp only: distinct_map) (auto simp: inj_on_def)
  ultimately have "distinct (map fst ?ps)" by (simp add: comp_def)
  then have "map_of (rev ?ps) k = Some d \<longleftrightarrow> (k, d) \<in> set ?ps"
    by (rule map_of_rev_distinct)
  moreover have "offset_to_die dg = map_of (rev ?ps)"
    using init_supported [OF assms(1,2), of cu files outp] assms(4) by auto
  ultimately show ?thesis by auto
qed

lemma walk_enter_skipped_out:
  "skipped die \<Longrightarrow>
     w_out (snd (walk_enter self die ws)) = w_out ws @ [skip_comment self die] \<and>
     w_names (snd (walk_enter self die ws)) = w_names ws"
  by (auto simp: skipped_def walk_enter_def get_die_name_def skip_comment_def split: option.splits)

lemma indexed_names_add: "indexed (names_add name die names) \<subseteq> insert die (indexed names)"
  by (auto simp: indexed_def names_add_def split: if_splits)

lemma walk_enter_kept_out:
  "\<not> skipped die \<Longrightarrow>
     w_out (snd (walk_enter self die ws)) = w_out ws \<and>
     indexed (w_names (snd (walk_enter self die ws))) \<subseteq> insert die (indexed (w_names ws))"
  using indexed_names_add [of "the (at_name (attributes die))" die "w_names ws"]
  by (auto simp: skipped_def walk_enter_def get_die_name_def split: option.splits)

lemma fold_walk_out:
  assumes "\<And>c ws. c \<in> set cs \<Longrightarrow>
      w_out (walk self c ws) = w_out ws @ map (skip_comment self) (skipped_at c) \<and>
      indexed (w_names (walk self c ws)) \<subseteq> indexed (w_names ws) \<union> set (reached c)"
  shows "w_out (fold (\<lambda>child w. walk self child w) cs ws) =
           w_out ws @ map (skip_comment self) (concat (map (\<lambda>child. skipped_at child) cs)) \<and>
         indexed (w_names (fold (\<lambda>child w. walk self child w) cs ws)) \<subseteq>
           indexed (w_names ws) \<union> set (concat (map (\<lambda>child. reached child) cs))"
  using assms
proof (induction cs arbitrary: ws)
  case Nil
  show ?case by simp
next
  case (Cons c cs)
  have c: "w_out (walk self c ws) = w_out ws @ map (skip_comment self) (skipped_at c)"
    "indexed (w_names (walk self c ws)) \<subseteq> indexed (w_names ws) \<union> set (reached c)"
    using Cons.prems [of c ws] by simp_all
  have "w_out (fold (\<lambda>child w. walk self child w) cs (walk self c ws)) =
           w_out (walk self c ws) @ map (skip_comment self) (concat (map (\<lambda>child. skipped_at child) cs)) \<and>
         indexed (w_names (fold (\<lambda>child w. walk self child w) cs (walk self c ws))) \<subseteq>
           indexed (w_names (walk self c ws)) \<union> set (concat (map (\<lambda>child. reached child) cs))"
    by (rule Cons.IH) (simp add: Cons.prems)
  with c show ?case by auto
qed

lemma walk_out:
  "w_out (walk self d ws) = w_out ws @ map (skip_comment self) (skipped_at d) \<and>
   indexed (w_names (walk self d ws)) \<subseteq> indexed (w_names ws) \<union> set (reached d)"
proof (induction d arbitrary: ws)
  case (DIE tg off at cs)
  show ?case
  proof (cases "skipped (DIE tg off at cs)")
    case True
    from walk_enter_skipped [OF True, of self ws] walk_enter_skipped_out [OF True, of self ws]
    show ?thesis
      using True by (cases "walk_enter self (DIE tg off at cs) ws") simp
  next
    case False
    obtain ws1 where e: "walk_enter self (DIE tg off at cs) ws = (True, ws1)"
      using walk_enter_kept [OF False, of self ws]
      by (cases "walk_enter self (DIE tg off at cs) ws") simp
    from walk_enter_kept_out [OF False, of self ws] e
    have o1: "w_out ws1 = w_out ws"
      and n1: "indexed (w_names ws1) \<subseteq> insert (DIE tg off at cs) (indexed (w_names ws))"
      by simp_all
    let ?ws2 = "ws1\<lparr>w_pairs := w_pairs ws1 @ [(off - cu_offset self, DIE tg off at cs)]\<rparr>"
    have f: "w_out (fold (\<lambda>child w. walk self child w) cs ?ws2) =
           w_out ?ws2 @ map (skip_comment self) (concat (map (\<lambda>child. skipped_at child) cs)) \<and>
         indexed (w_names (fold (\<lambda>child w. walk self child w) cs ?ws2)) \<subseteq>
           indexed (w_names ?ws2) \<union> set (concat (map (\<lambda>child. reached child) cs))"
      by (rule fold_walk_out) (rule DIE.IH)
    from f o1 n1 e False show ?thesis by auto
  qed
qed

lemma skip_comment_filedesc:
  "filedesc a = filedesc b \<Longrightarrow> skip_comment a d = skip_comment b d"
  by (cases "at_decl_file (attributes d)")
     (simp_all add: skip_comment_def skipped_entry_def src_location_def Let_def)

lemma init_output:
  assumes "at_language (attributes top_die) = Some lang" "lang \<in> set LANGUAGES"
    and "fst (TypeDG_init cu top_die files outp) = Ok dg"
  shows "snd (TypeDG_init cu top_die files outp) = outp @ map (skip_comment dg) (skipped_at top_die)"
    and "indexed (named_types dg) \<subseteq> set (reached top_die)"
proof -
  let ?self = "\<lparr>cu_offset = cu, filedesc = files, offset_to_die = Map.empty, named_types = []\<rparr>"
  let ?ws = "walk ?self top_die \<lparr>w_out = outp, w_names = [], w_pairs = []\<rparr>"
  from assms have dg: "dg = ?self\<lparr>offset_to_die := map_of (rev (w_pairs ?ws)), named_types := w_names ?ws\<rparr>"
    by (simp add: TypeDG_init_def Let_def)
  have f: "filedesc ?self = filedesc dg" by (simp add: dg)
  from walk_out [of ?self top_die "\<lparr>w_out = outp, w_names = [], w_pairs = []\<rparr>"]
  have o: "w_out ?ws = outp @ map (skip_comment ?self) (skipped_at top_die)"
    and n: "indexed (w_names ?ws) \<subseteq> set (reached top_die)"
    by (simp_all add: indexed_def)
  have "map (skip_comment ?self) (skipped_at top_die) = map (skip_comment dg) (skipped_at top_die)"
    using skip_comment_filedesc [OF f] by simp
  with o assms show "snd (TypeDG_init cu top_die files outp) =
      outp @ map (skip_comment dg) (skipped_at top_die)"
    by (simp add: TypeDG_init_def Let_def)
  from n show "indexed (named_types dg) \<subseteq> set (reached top_die)"
    by (simp add: dg)
qed

text \<open>
  Claim C5, amended. In a unit of a supported language whose entries have distinct
  offsets, an entry of a named kind whose name fails validation is skipped with all of
  its descendants (line 68 returns before the entry is yielded and before its children
  are visited), and what the indexer prints is one \<^verbatim>\<open>skipped\<close> comment for each entry at
  which it stops, in the order of the traversal; every other entry (\<open>reached\<close>) is in the
  offset map under its offset minus the unit's base offset, and neither the offset map nor
  the name index holds anything else.
\<close>

theorem C5_offset_map:
  assumes "at_language (attributes top_die) = Some lang" "lang \<in> set LANGUAGES"
    and "distinct (map offset (reached top_die))"
  shows "\<exists>dg. TypeDG_init cu top_die files outp =
               (Ok dg, outp @ map (skip_comment dg) (skipped_at top_die)) \<and>
          (\<forall>d \<in> set (reached top_die). offset_to_die dg (offset d - cu) = Some d) \<and>
          (\<forall>k d. offset_to_die dg k = Some d \<longrightarrow> d \<in> set (reached top_die) \<and> \<not> skipped d) \<and>
          indexed (named_types dg) \<subseteq> set (reached top_die)"
proof -
  from init_supported [OF assms(1,2), of cu files outp]
  obtain dg where dg: "fst (TypeDG_init cu top_die files outp) = Ok dg" by blast
  have r: "d \<in> set (reached e) \<Longrightarrow> \<not> skipped d" for d e
  proof (induction e)
    case (DIE tg off at cs)
    then show ?case by (auto split: if_splits)
  qed
  have p: "TypeDG_init cu top_die files outp =
             (Ok dg, outp @ map (skip_comment dg) (skipped_at top_die))"
    using dg init_output(1) [OF assms(1,2) dg]
    by (cases "TypeDG_init cu top_die files outp") simp
  from init_offset_map [OF assms dg] r p init_output(2) [OF assms(1,2) dg]
  show ?thesis by blast
qed

lemma ex_unit_reached:
  "reached ex_unit = [ex_unit, ex_int, ex_good_struct,
     DIE ''DW_TAG_member'' 52
        (no_attrs\<lparr>at_name := Some ''y'', at_type := Some 16, at_data_member_location := Some 0\<rparr>) []]"
  by (simp add: ex_unit_def ex_int_def ex_bad_struct_def ex_good_struct_def skipped_def
      TAGS_for_types_def no_attrs_def is_valid_name_examples)

lemma ex_unit_lang:
  "at_language (attributes ex_unit) = Some 0xc" "(0xc :: int) \<in> set LANGUAGES"
  by (simp_all add: ex_unit_def LANGUAGES_def no_attrs_def)

text \<open>
  Claim C5 says that an entry whose name fails validation is still recorded in the offset
  map and that its children are traversed. The structure \<^verbatim>\<open>bad$name\<close> of the example unit
  and its member at offset 36 are not in the map; the structure after it is.
\<close>

theorem C5_counterexample:
  "(case fst (TypeDG_init 11 ex_unit [''a.c''] []) of
      Ok dg \<Rightarrow> offset_to_die dg (offset ex_bad_struct - 11) = None \<and>
               offset_to_die dg (36 - 11) = None \<and>
               offset_to_die dg (offset ex_good_struct - 11) = Some ex_good_struct
    | Raise e \<Rightarrow> False)"
  by (simp add: init_supported [OF ex_unit_lang] ex_unit_reached)
     (simp add: ex_unit_def ex_int_def ex_bad_struct_def ex_good_struct_def)

lemma ex_unit_skipped_at: "skipped_at ex_unit = [ex_bad_struct]"
  by (simp add: ex_unit_def ex_int_def ex_bad_struct_def ex_good_struct_def skipped_def
      TAGS_for_types_def no_attrs_def is_valid_name_examples)

lemma ex_bad_struct_comment:
  "filedesc dg = [''a.c''] \<Longrightarrow> text_of (skip_comment dg ex_bad_struct) =
     ''/* skipped DW_TAG_structure_type at _nowhere_: invalid C identifier '' @
       [CHR 0x27] @ ''bad$name'' @ [CHR 0x27] @ '' */''"
  by (simp add: skip_comment_def skipped_entry_def src_location_def ex_bad_struct_def no_attrs_def)

text \<open>
  The example unit: its top entry, the base type and the valid structure are recorded, the
  structure \<^verbatim>\<open>bad$name\<close> is in neither index, and the one line printed is the comment on
  it.
\<close>

theorem C5_offset_map_witness:
  "at_language (attributes ex_unit) = Some 0xc \<and> (0xc :: int) \<in> set LANGUAGES \<and>
   distinct (map offset (reached ex_unit)) \<and>
   (\<exists>dg. fst (TypeDG_init 11 ex_unit [''a.c''] []) = Ok dg \<and>
      map text_of (snd (TypeDG_init 11 ex_unit [''a.c''] [])) =
        [''/* skipped DW_TAG_structure_type at _nowhere_: invalid C identifier '' @
           [CHR 0x27] @ ''bad$name'' @ [CHR 0x27] @ '' */''] \<and>
      offset_to_die dg (offset ex_unit - 11) = Some ex_unit \<and>
      offset_to_die dg (offset ex_int - 11) = Some ex_int \<and>
      offset_to_die dg (offset ex_good_struct - 11) = Some ex_good_struct \<and>
      offset_to_die dg (offset ex_bad_struct - 11) \<noteq> Some ex_bad_struct \<and>
      ex_bad_struct \<notin> indexed (named_types dg))"
proof -
  have d: "distinct (map offset (reached ex_unit))"
    by (simp add: ex_unit_reached) (simp add: ex_unit_def ex_int_def ex_good_struct_def)
  from C5_offset_map [OF ex_unit_lang d, of 11 "[''a.c'']" "[]"]
  obtain dg where dg: "TypeDG_init 11 ex_unit [''a.c''] [] =
        (Ok dg, [] @ map (skip_comment dg) (skipped_at ex_unit))"
    and all: "\<forall>d \<in> set (reached ex_unit). offset_to_die dg (offset d - 11) = Some d"
    and only: "\<forall>k d. offset_to_die dg k = Some d \<longrightarrow> d \<in> set (reached ex_unit) \<and> \<not> skipped d"
    and names: "indexed (named_types dg) \<subseteq> set (reached ex_unit)"
    by blast
  have fd: "filedesc dg = [''a.c'']"
    using dg init_supported [OF ex_unit_lang, of 11 "[''a.c'']" "[]"] by auto
  have bad: "ex_bad_struct \<notin> set (reached ex_unit)"
    by (simp add: ex_unit_reached)
       (simp add: ex_unit_def ex_int_def ex_bad_struct_def ex_good_struct_def)
  from all have 1: "offset_to_die dg (offset ex_unit - 11) = Some ex_unit"
    "offset_to_die dg (offset ex_int - 11) = Some ex_int"
    "offset_to_die dg (offset ex_good_struct - 11) = Some ex_good_struct"
    by (simp_all add: ex_unit_reached)
  from only bad have 2: "offset_to_die dg (offset ex_bad_struct - 11) \<noteq> Some ex_bad_struct"
    by blast
  from names bad have 3: "ex_bad_struct \<notin> indexed (named_types dg)" by blast
  have 4: "map text_of (snd (TypeDG_init 11 ex_unit [''a.c''] [])) =
        [''/* skipped DW_TAG_structure_type at _nowhere_: invalid C identifier '' @
           [CHR 0x27] @ ''bad$name'' @ [CHR 0x27] @ '' */'']"
    using dg ex_bad_struct_comment [OF fd] by (simp add: ex_unit_skipped_at)
  from dg have 5: "fst (TypeDG_init 11 ex_unit [''a.c''] []) = Ok dg" by simp
  have "\<exists>dg. fst (TypeDG_init 11 ex_unit [''a.c''] []) = Ok dg \<and>
      map text_of (snd (TypeDG_init 11 ex_unit [''a.c''] [])) =
        [''/* skipped DW_TAG_structure_type at _nowhere_: invalid C identifier '' @
           [CHR 0x27] @ ''bad$name'' @ [CHR 0x27] @ '' */''] \<and>
      offset_to_die dg (offset ex_unit - 11) = Some ex_unit \<and>
      offset_to_die dg (offset ex_int - 11) = Some ex_int \<and>
      offset_to_die dg (offset ex_good_struct - 11) = Some ex_good_struct \<and>
      offset_to_die dg (offset ex_bad_struct - 11) \<noteq> Some ex_bad_struct \<and>
      ex_bad_struct \<notin> indexed (named_types dg)"
    by (rule exI [of _ dg]) (intro conjI 1 2 3 4 5)
  with d ex_unit_lang show ?thesis by (intro conjI)
qed

section \<open>Pointers to incomplete aggregates\<close>

lemma aggregate_stem:
  assumes "tag s \<in> {''DW_TAG_structure_type'', ''DW_TAG_class_type'', ''DW_TAG_union_type''}"
  shows "\<exists>stem. map_of TAGS_for_types (tag s) = Some (Some stem) \<and> get_stem s = Ok stem \<and>
           tag s \<noteq> ''DW_TAG_typedef''"
  using assms by (auto simp: TAGS_for_types_def get_stem_def)

lemma gen_decl_aggregate:
  assumes "tag s \<in> {''DW_TAG_structure_type'', ''DW_TAG_class_type'', ''DW_TAG_union_type''}"
    and "get_stem s = Ok stem" and "get_die_name_gensym dg s = Ok tg"
  shows "gen_decl dg (Suc n) (Some s) name =
           Ok (Some (stem @ '' '' @ tg @ (if truthy name then '' '' @ the name else [])))"
proof -
  from aggregate_stem [OF assms(1)] assms(2)
  have "map_of TAGS_for_types (tag s) = Some (Some stem)" "tag s \<noteq> ''DW_TAG_typedef''"
    by auto
  then show ?thesis
    using assms(3) by (simp add: gen_decl_named)
qed

lemma kept_aggregate_named:
  assumes "tag s \<in> {''DW_TAG_structure_type'', ''DW_TAG_class_type'', ''DW_TAG_union_type''}"
    and "\<not> skipped s"
  shows "\<exists>tg. get_die_name_gensym dg s = Ok tg"
  using assms
  by (auto simp: skipped_def get_die_name_gensym_def get_stem_def TAGS_for_types_def
      split: option.splits)

lemma track_forward:
  assumes "tag s \<in> {''DW_TAG_structure_type'', ''DW_TAG_class_type'', ''DW_TAG_union_type''}"
    and "shown st (KDie (offset s)) = None"
    and "get_stem s = Ok stem" and "get_die_name_gensym dg s = Ok tg"
  shows "track dg (Suc (Suc n)) (Some s) depth True st =
    (None, set_shown (KDie (offset s)) Declared (print_line (Forward (stem @ '' '' @ tg @ '';'')) st))"
proof -
  have v: "visits st s True"
    using assms(2) by (simp add: visits_def)
  have g: "gen_decl dg (Suc n) (Some s) None = Ok (Some (stem @ '' '' @ tg))"
    using gen_decl_aggregate [OF assms(1,3,4)] by (simp add: truthy_def)
  show ?thesis
    using assms(2)
    by (simp add: track_aggregate_type [OF assms(1) v] track_aggregate_def g final_write_def
        print_line_def)
qed

lemma track_pointer_forward:
  assumes "tag p = ''DW_TAG_pointer_type''"
    and "get_type_die dg p = Some s"
    and "tag s \<in> {''DW_TAG_structure_type'', ''DW_TAG_class_type'', ''DW_TAG_union_type''}"
    and "shown st (KDie (offset s)) = None"
    and "visits st p mi"
    and "get_stem s = Ok stem" and "get_die_name_gensym dg s = Ok tg"
  shows "track dg (Suc (Suc (Suc n))) (Some p) depth mi st =
           (None, set_shown (KDie (offset p)) Defined
                    (set_shown (KDie (offset s)) Declared
                      (print_line (Forward (stem @ '' '' @ tg @ '';'')) st)))"
  using assms(2)
  by (simp add: track_pointer_type [OF assms(1,5)] track_pointer_def
      track_forward [OF assms(3,4,6,7)] final_write_def)

text \<open>
  A pointer becomes \<^verbatim>\<open>"defined"\<close> only after its pointee was visited in allow-incomplete
  mode: when the call on the pointer returns, an aggregate pointee is \<^verbatim>\<open>"declared"\<close> or
  \<^verbatim>\<open>"defined"\<close>.
\<close>

lemma track_incomplete_marks:
  assumes "tag s \<in> {''DW_TAG_structure_type'', ''DW_TAG_class_type'', ''DW_TAG_union_type''}"
    and "track dg n (Some s) depth True st = (None, st1)"
  shows "shown st1 (KDie (offset s)) = Some Declared \<or> shown st1 (KDie (offset s)) = Some Defined"
proof (cases n)
  case 0
  with assms(2) show ?thesis by simp
next
  case (Suc k)
  show ?thesis
  proof (cases "visits st s True")
    case True
    from assms(2) show ?thesis
      unfolding Suc track_aggregate_type [OF assms(1) True]
      by (auto simp: track_aggregate_def final_write_def set_shown_def print_line_def
          split: result.splits option.splits if_splits)
  next
    case False
    then consider "shown st (KDie (offset s)) = Some Defined"
      | "shown st (KDie (offset s)) = Some Declared"
      by (auto simp: visits_def)
    then show ?thesis
      using assms(2) unfolding Suc
      by cases (simp_all add: track_defined track_declared)
  qed
qed

lemma pointer_defined_after_pointee:
  assumes "tag p = ''DW_TAG_pointer_type''" "get_type_die dg p = Some s"
    and "tag s \<in> {''DW_TAG_structure_type'', ''DW_TAG_class_type'', ''DW_TAG_union_type''}"
    and "visits st p mi"
    and "track dg n (Some p) depth mi st = (None, st')"
  shows "shown st' (KDie (offset s)) = Some Declared \<or> shown st' (KDie (offset s)) = Some Defined"
proof (cases n)
  case 0
  with assms(5) show ?thesis by simp
next
  case (Suc k)
  obtain e st1 where r: "track dg k (Some s) (depth + 1) True st = (e, st1)"
    by (cases "track dg k (Some s) (depth + 1) True st")
  from assms(5) have e: "e = None" and st': "st' = set_shown (KDie (offset p)) Defined st1"
    unfolding Suc track_pointer_type [OF assms(1,4)]
    using r assms(2)
    by (auto simp: track_pointer_def final_write_def split: option.splits)
  from track_incomplete_marks [OF assms(3) r [unfolded e]]
  show ?thesis
    unfolding st' by (auto simp: set_shown_def)
qed

text \<open>
  Claim C4. Tracking a pointer entry whose pointee is an aggregate that is neither
  \<^verbatim>\<open>"declared"\<close> nor \<^verbatim>\<open>"defined"\<close> prints exactly one line, the forward declaration of the
  aggregate's tag, and no definition; it leaves the pointee \<^verbatim>\<open>"declared"\<close> and the pointer
  \<^verbatim>\<open>"defined"\<close>. The call is one that gets past the early returns (the pointer is not yet
  \<^verbatim>\<open>"defined"\<close>: once a call has set it, the pointee is declared, by
  \<open>pointer_defined_after_pointee\<close>, and stays so), it has three frames or more, and the
  aggregate has a tag name \<open>tg\<close>, as every entry has that the offset map resolves
  (\<open>kept_aggregate_named\<close>).
\<close>

theorem C4_pointer_to_incomplete:
  assumes "tag p = ''DW_TAG_pointer_type''"
    and "get_type_die dg p = Some s"
    and "tag s \<in> {''DW_TAG_structure_type'', ''DW_TAG_class_type'', ''DW_TAG_union_type''}"
    and "shown st (KDie (offset s)) = None"
    and "visits st p mi"
    and "offset p \<noteq> offset s"
    and "get_stem s = Ok stem" and "get_die_name_gensym dg s = Ok tg"
  shows "fst (track dg (Suc (Suc (Suc n))) (Some p) depth mi st) = None \<and>
         out (snd (track dg (Suc (Suc (Suc n))) (Some p) depth mi st)) =
           out st @ [Forward (stem @ '' '' @ tg @ '';'')] \<and>
         shown (snd (track dg (Suc (Suc (Suc n))) (Some p) depth mi st)) =
           (shown st)(KDie (offset s) \<mapsto> Declared, KDie (offset p) \<mapsto> Defined) \<and>
         shown (snd (track dg (Suc (Suc (Suc n))) (Some p) depth mi st)) (KDie (offset s)) =
           Some Declared"
  using assms(6)
  by (simp add: track_pointer_forward [OF assms(1,2,3,4,5,7,8)] print_line_def set_shown_def)

lemma ex_node_facts:
  "tag ex_node = ''DW_TAG_structure_type''" "tag ex_node_ptr = ''DW_TAG_pointer_type''"
  "get_type_die ex_dg ex_node_ptr = Some ex_node"
  "offset ex_node = 192" "offset ex_node_ptr = 208"
  "get_stem ex_node = Ok ''struct''" "get_die_name_gensym ex_dg ex_node = Ok ''node''"
  by (simp_all add: ex_node_def ex_node_ptr_def get_type_die_def ex_dg_def no_attrs_def
      get_stem_def TAGS_for_types_def get_die_name_gensym_def is_valid_name_def goodchar_def)

text \<open>
  The pointer to the list node, from the empty state.
\<close>

theorem C4_pointer_to_incomplete_witness:
  "tag ex_node_ptr = ''DW_TAG_pointer_type'' \<and> get_type_die ex_dg ex_node_ptr = Some ex_node \<and>
   tag ex_node = ''DW_TAG_structure_type'' \<and> shown empty_state (KDie (offset ex_node)) = None \<and>
   visits empty_state ex_node_ptr False \<and>
   fst (track ex_dg 3 (Some ex_node_ptr) 0 False empty_state) = None \<and>
   out (snd (track ex_dg 3 (Some ex_node_ptr) 0 False empty_state)) = [Forward ''struct node;''] \<and>
   shown (snd (track ex_dg 3 (Some ex_node_ptr) 0 False empty_state)) (KDie 192) = Some Declared \<and>
   shown (snd (track ex_dg 3 (Some ex_node_ptr) 0 False empty_state)) (KDie 208) = Some Defined \<and>
   shown (snd (track ex_dg 3 (Some ex_node_ptr) 0 False empty_state)) (KTag ''node'') = None"
  using C4_pointer_to_incomplete [of ex_node_ptr ex_dg ex_node empty_state False "''struct''" "''node''" 0 0]
  by (simp add: ex_node_facts numeral_3_eq_3 visits_def)
     (simp add: empty_state_def)

section \<open>The emission state only advances\<close>

lemma defined_tags_append: "defined_tags (xs @ ys) = defined_tags xs @ defined_tags ys"
  by (induction xs) (simp_all split: option.splits)

lemma advances_refl: "advances st st"
  by (simp add: advances_def)

lemma advances_trans:
  assumes "advances st1 st2" "advances st2 st3"
  shows "advances st1 st3"
proof -
  from assms(1) obtain new1 where n1: "out st2 = out st1 @ new1" "distinct (defined_tags new1)"
    "\<forall>tg \<in> set (defined_tags new1). shown st1 (KTag tg) = None \<and> shown st2 (KTag tg) \<noteq> None"
    unfolding advances_def by blast
  from assms(2) obtain new2 where n2: "out st3 = out st2 @ new2" "distinct (defined_tags new2)"
    "\<forall>tg \<in> set (defined_tags new2). shown st2 (KTag tg) = None \<and> shown st3 (KTag tg) \<noteq> None"
    unfolding advances_def by blast
  have tags12: "\<And>tg. shown st1 (KTag tg) \<noteq> None \<Longrightarrow> shown st2 (KTag tg) = shown st1 (KTag tg)"
    using assms(1) unfolding advances_def by blast
  have tags23: "\<And>tg. shown st2 (KTag tg) \<noteq> None \<Longrightarrow> shown st3 (KTag tg) = shown st2 (KTag tg)"
    using assms(2) unfolding advances_def by blast
  have o: "out st3 = out st1 @ (new1 @ new2)"
    using n1(1) n2(1) by simp
  have d: "distinct (defined_tags (new1 @ new2))"
    using n1(2,3) n2(2,3) by (auto simp: defined_tags_append)
  have f: "\<forall>tg \<in> set (defined_tags (new1 @ new2)). shown st1 (KTag tg) = None \<and> shown st3 (KTag tg) \<noteq> None"
  proof
    fix tg assume "tg \<in> set (defined_tags (new1 @ new2))"
    then consider "tg \<in> set (defined_tags new1)" | "tg \<in> set (defined_tags new2)"
      by (auto simp: defined_tags_append)
    then show "shown st1 (KTag tg) = None \<and> shown st3 (KTag tg) \<noteq> None"
    proof cases
      case 1
      with n1(3) have "shown st1 (KTag tg) = None" "shown st2 (KTag tg) \<noteq> None" by auto
      with tags23 [of tg] show ?thesis by simp
    next
      case 2
      with n2(3) have a: "shown st2 (KTag tg) = None" "shown st3 (KTag tg) \<noteq> None" by auto
      have "shown st1 (KTag tg) = None"
      proof (rule ccontr)
        assume b: "shown st1 (KTag tg) \<noteq> None"
        then have "shown st2 (KTag tg) = shown st1 (KTag tg)" by (rule tags12)
        with a(1) b show False by simp
      qed
      with a show ?thesis by simp
    qed
  qed
  have 1: "\<forall>i. shown st1 (KDie i) = Some Defined \<longrightarrow> shown st3 (KDie i) = Some Defined"
    using assms unfolding advances_def by blast
  have 2: "\<forall>i. shown st1 (KDie i) = Some Declared \<longrightarrow>
            shown st3 (KDie i) = Some Declared \<or> shown st3 (KDie i) = Some Defined"
    using assms unfolding advances_def by blast
  have 3: "\<forall>tg. shown st1 (KTag tg) \<noteq> None \<longrightarrow> shown st3 (KTag tg) = shown st1 (KTag tg)"
    using tags12 tags23 by auto
  from 1 2 3 o d f show ?thesis
    unfolding advances_def by blast
qed

lemma advances_print:
  assumes "opens l = None"
  shows "advances st (print_line l st)"
  using assms by (simp add: advances_def print_line_def)

lemma advances_set_defined: "advances st (set_shown (KDie i) Defined st)"
  by (simp add: advances_def set_shown_def)

lemma advances_set_declared:
  assumes "shown st (KDie i) \<noteq> Some Defined"
  shows "advances st (set_shown (KDie i) Declared st)"
  using assms by (simp add: advances_def set_shown_def)

lemma advances_set_tag:
  assumes "shown st (KTag tg) = None"
  shows "advances st (set_shown (KTag tg) e st)"
  using assms by (auto simp: advances_def set_shown_def)

text \<open>
  A definition is printed after its tag name was recorded: between the record and the
  opening line only lines of other tag names are printed.
\<close>

lemma advances_define:
  assumes fresh: "shown st (KTag tg) = None"
    and rec: "shown st1 (KTag tg) \<noteq> None" "out st1 = out st" "advances st st1"
    and later: "advances st1 st2"
    and l: "opens l = Some tg"
  shows "advances st (print_line l st2)"
proof -
  from later obtain new where n: "out st2 = out st1 @ new" "distinct (defined_tags new)"
    "\<forall>t \<in> set (defined_tags new). shown st1 (KTag t) = None \<and> shown st2 (KTag t) \<noteq> None"
    unfolding advances_def by blast
  have a: "advances st st2"
    using rec(3) later by (rule advances_trans)
  have tg2: "shown st2 (KTag tg) \<noteq> None"
    using later rec(1) unfolding advances_def by auto
  have notin: "tg \<notin> set (defined_tags new)"
    using n(3) rec(1) by auto
  have fresh_all: "\<forall>t \<in> set (defined_tags new). shown st (KTag t) = None"
  proof
    fix t assume "t \<in> set (defined_tags new)"
    with n(3) have "shown st1 (KTag t) = None" by auto
    show "shown st (KTag t) = None"
    proof (rule ccontr)
      assume b: "shown st (KTag t) \<noteq> None"
      with rec(3) have "shown st1 (KTag t) = shown st (KTag t)"
        unfolding advances_def by blast
      with b \<open>shown st1 (KTag t) = None\<close> show False by simp
    qed
  qed
  have o: "out (print_line l st2) = out st @ (new @ [l])"
    using n(1) rec(2) by (simp add: print_line_def)
  have d: "distinct (defined_tags (new @ [l]))"
    using n(2) notin l by (simp add: defined_tags_append)
  have f: "\<forall>t \<in> set (defined_tags (new @ [l])).
             shown st (KTag t) = None \<and> shown (print_line l st2) (KTag t) \<noteq> None"
    using fresh_all n(3) fresh tg2 l by (auto simp: defined_tags_append print_line_def)
  have s: "shown (print_line l st2) = shown st2"
    by (simp add: print_line_def)
  from a o d f show ?thesis
    unfolding advances_def s by blast
qed

lemma tracker_advancesD:
  "tracker_advances rec \<Longrightarrow> rec d depth mi st = (e, st1) \<Longrightarrow> advances st st1"
  unfolding tracker_advances_def by (metis snd_conv)

lemma track_params_advances:
  assumes "tracker_advances rec"
  shows "advances st (snd (track_params rec dg depth cs st))"
proof (induction cs arbitrary: st)
  case Nil
  show ?case by (simp add: advances_refl)
next
  case (Cons c cs)
  show ?case
  proof (cases "tag c \<noteq> ''DW_TAG_formal_parameter''")
    case True
    with Cons show ?thesis by simp
  next
    case False
    obtain e st1 where r: "rec (get_type_die dg c) depth False st = (e, st1)"
      by (cases "rec (get_type_die dg c) depth False st")
    with assms have a: "advances st st1" by (rule tracker_advancesD)
    show ?thesis
    proof (cases e)
      case None
      from a Cons.IH [of st1] have "advances st (snd (track_params rec dg depth cs st1))"
        by (rule advances_trans)
      with False r None show ?thesis by simp
    next
      case (Some x)
      with False r a show ?thesis by simp
    qed
  qed
qed

lemma track_subprogram_advances:
  assumes "tracker_advances rec"
  shows "advances st (snd (track_subprogram rec dg die depth st))"
proof -
  obtain e st1 where r: "rec (get_type_die dg die) depth False st = (e, st1)"
    by (cases "rec (get_type_die dg die) depth False st")
  with assms have a: "advances st st1" by (rule tracker_advancesD)
  obtain e2 st2 where p: "track_params rec dg depth (children die) st1 = (e2, st2)"
    by (cases "track_params rec dg depth (children die) st1")
  with track_params_advances [OF assms, of st1 dg depth "children die"]
  have "advances st1 st2" by simp
  with a have "advances st st2" by (rule advances_trans)
  with a r p show ?thesis
    by (simp add: track_subprogram_def split: option.splits)
qed

lemma track_pointer_advances:
  assumes "tracker_advances rec"
  shows "advances st (snd (track_pointer rec dg die depth st))"
proof -
  obtain e st1 where r: "rec (get_type_die dg die) depth True st = (e, st1)"
    by (cases "rec (get_type_die dg die) depth True st")
  with assms have "advances st st1" by (rule tracker_advancesD)
  with r show ?thesis
    by (simp add: track_pointer_def split: option.splits)
qed

lemma track_through_advances:
  assumes "tracker_advances rec"
  shows "advances st (snd (track_through rec dg die depth st))"
proof -
  obtain e st1 where r: "rec (get_type_die dg die) depth False st = (e, st1)"
    by (cases "rec (get_type_die dg die) depth False st")
  with assms have "advances st st1" by (rule tracker_advancesD)
  with r show ?thesis
    by (simp add: track_through_def split: option.splits)
qed

lemma track_reference_advances:
  assumes "tracker_advances rec"
  shows "advances st (snd (track_reference rec dg die depth st))"
proof -
  obtain e st1 where r: "rec (get_type_die dg die) depth False st = (e, st1)"
    by (cases "rec (get_type_die dg die) depth False st")
  with assms have "advances st st1" by (rule tracker_advancesD)
  with r show ?thesis
    by (simp add: track_reference_def split: option.splits)
qed

lemma advances_then_print:
  assumes "advances st st1" "opens l = None"
  shows "advances st (print_line l st1)"
  using assms(1) advances_print [OF assms(2)] by (rule advances_trans)

lemma track_typedef_advances:
  assumes "tracker_advances rec"
  shows "advances st (snd (track_typedef rec gd dg die depth st))"
proof -
  obtain e st1 where r: "rec (get_type_die dg die) depth False st = (e, st1)"
    by (cases "rec (get_type_die dg die) depth False st")
  with assms have a: "advances st st1" by (rule tracker_advancesD)
  then have b: "advances st (print_line (location_comment dg die) st1)"
    by (rule advances_then_print) (simp add: location_comment_def)
  then have c: "advances st (print_line (Typedef s) (print_line (location_comment dg die) st1))" for s
    by (rule advances_then_print) simp
  from a b c r show ?thesis
    by (simp add: track_typedef_def Let_def split: option.splits result.splits)
qed

lemma track_members_advances:
  assumes "tracker_advances rec"
  shows "advances st (snd (track_members rec gd dg depth cs members st))"
proof (induction cs arbitrary: st members)
  case Nil
  show ?case by (simp add: advances_refl)
next
  case (Cons c cs)
  obtain e st1 where r: "rec (get_type_die dg c) depth False st = (e, st1)"
    by (cases "rec (get_type_die dg c) depth False st")
  with assms have a: "advances st st1" by (rule tracker_advancesD)
  have b: "advances st (snd (track_members rec gd dg depth cs ms st1))" for ms
    using a Cons.IH [of st1 ms] by (rule advances_trans)
  from a b r Cons.IH [of st members] show ?case
    by (simp add: Let_def advances_refl split: option.splits result.splits)
qed

lemma fold_members_advances:
  "advances st (fold (\<lambda>line. print_line (Member line)) members st)"
proof (induction members arbitrary: st)
  case Nil
  show ?case by (simp add: advances_refl)
next
  case (Cons m ms)
  have "advances st (print_line (Member m) st)"
    by (rule advances_print) simp
  from this Cons [of "print_line (Member m) st"] show ?case
    by (simp add: advances_trans)
qed

lemma set_shown_out [simp]: "out (set_shown k m st) = out st"
  by (simp add: set_shown_def)

lemma set_shown_shown [simp]: "shown (set_shown k m st) = (shown st)(k \<mapsto> m)"
  by (simp add: set_shown_def)

lemma track_aggregate_advances:
  assumes "tracker_advances rec"
  shows "advances st (snd (track_aggregate rec gd dg die depth mi st))"
proof (cases mi)
  case True
  have "advances st (print_line (Forward s) st)" for s
    by (rule advances_print) simp
  with True show ?thesis
    by (simp add: track_aggregate_def advances_refl split: option.splits result.splits)
next
  case False
  show ?thesis
  proof (cases "at_declaration (attributes die)")
    case True
    with False show ?thesis by (simp add: track_aggregate_def advances_refl)
  next
    case decl: False
    show ?thesis
    proof (cases "get_die_name_gensym dg die")
      case (Raise e)
      with False decl show ?thesis by (simp add: track_aggregate_def advances_refl)
    next
      case (Ok tg)
      show ?thesis
      proof (cases "shown st (KTag tg) = None")
        case False
        with \<open>\<not> mi\<close> decl Ok show ?thesis by (auto simp: track_aggregate_def advances_refl)
      next
        case fresh: True
        define st1 where "st1 = set_shown (KDie (offset die)) Defined
                           (set_shown (KTag tg) (Entry (offset die)) st)"
        have a1: "advances st st1"
          unfolding st1_def
          using advances_set_tag [OF fresh] advances_set_defined by (rule advances_trans)
        have o1: "out st1 = out st" by (simp add: st1_def)
        have t1: "shown st1 (KTag tg) \<noteq> None" by (simp add: st1_def)
        show ?thesis
        proof (cases "at_byte_size (attributes die)")
          case None
          with False decl Ok fresh a1 show ?thesis
            by (simp add: track_aggregate_def st1_def)
        next
          case (Some sz)
          obtain r st2 where m: "track_members rec gd dg depth (children die) [] st1 = (r, st2)"
            by (cases "track_members rec gd dg depth (children die) [] st1")
          with track_members_advances [OF assms, of st1 gd dg depth "children die" "[]"]
          have a12: "advances st1 st2" by simp
          with a1 have a2: "advances st st2" by (rule advances_trans)
          define st3 where "st3 = print_line (location_comment dg die) st2"
          have a13: "advances st1 st3"
            unfolding st3_def using a12 by (rule advances_then_print) (simp add: location_comment_def)
          with a1 have a3: "advances st st3" by (rule advances_trans)
          have a4: "advances st (print_line (Opening tg s) st3)" for s
            using fresh t1 o1 a1 a13 by (rule advances_define) simp
          have a5: "advances st (print_line (Closing c)
                      (fold (\<lambda>line. print_line (Member line)) ms (print_line (Opening tg s) st3)))" for s ms c
            by (rule advances_then_print [OF advances_trans [OF a4 fold_members_advances]]) simp
          have a6: "advances st (print_line (Closing c)
                      (print_line (Padding p) (print_line (Opening tg s) st3)))" for s p c
            by (rule advances_then_print [OF advances_then_print [OF a4]]) simp_all
          have a7: "advances st (print_line (Closing c) (print_line (Opening tg s) st3))" for s c
            by (rule advances_then_print [OF a4]) simp
          from False decl Ok fresh Some m a2 a3 a5 a6 a7 show ?thesis
            by (simp add: track_aggregate_def Let_def st1_def [symmetric] st3_def [symmetric]
                split: option.splits result.splits)
        qed
      qed
    qed
  qed
qed

lemma track_enumeration_advances:
  "advances st (snd (track_enumeration gd dg die st))"
proof (cases "get_die_name_gensym dg die")
  case (Raise e)
  then show ?thesis by (simp add: track_enumeration_def advances_refl)
next
  case (Ok tg)
  show ?thesis
  proof (cases "shown st (KTag tg) = None")
    case False
    with Ok show ?thesis by (auto simp: track_enumeration_def advances_refl)
  next
    case fresh: True
    define st1 where "st1 = set_shown (KTag tg) (Entry (offset die)) st"
    have a1: "advances st st1"
      unfolding st1_def using fresh by (rule advances_set_tag)
    have o1: "out st1 = out st" by (simp add: st1_def)
    have t1: "shown st1 (KTag tg) \<noteq> None" by (simp add: st1_def)
    have a4: "advances st (print_line (EnumOpening tg s) st1)" for s
      using fresh t1 o1 a1 advances_refl by (rule advances_define) simp
    have a5: "advances st (print_line (Closing c) (print_line (EnumBody b)
                (print_line (EnumOpening tg s) st1)))" for s b c
      by (rule advances_then_print [OF advances_then_print [OF a4]]) simp_all
    from Ok fresh a1 a5 show ?thesis
      by (simp add: track_enumeration_def Let_def st1_def [symmetric]
          split: option.splits result.splits)
  qed
qed

lemma final_write_advances:
  assumes "advances st st1"
  shows "advances st (snd (final_write die (c, st1)))"
proof (cases c)
  case (Next decl_only)
  have d: "advances st (set_shown (KDie (offset die)) Defined st1)"
    using assms advances_set_defined by (rule advances_trans)
  have e: "shown st1 (KDie (offset die)) \<noteq> Some Defined \<Longrightarrow>
           advances st (set_shown (KDie (offset die)) Declared st1)"
    using assms advances_set_declared by (rule advances_trans)
  from Next assms d e show ?thesis
    by (simp add: final_write_def)
next
  case Return
  with assms show ?thesis by (simp add: final_write_def)
next
  case (Raised e)
  with assms show ?thesis by (simp add: final_write_def)
qed

lemma final_write_advances':
  assumes "advances st (snd r)"
  shows "advances st (snd (final_write die r))"
  using final_write_advances [OF assms, of die "fst r"] by simp

lemma track_body_advances:
  assumes "tracker_advances rec"
  shows "tracker_advances (track_body dg rec gd)"
  unfolding tracker_advances_def
proof (intro allI)
  fix d depth mi st
  show "advances st (snd (track_body dg rec gd d depth mi st))"
  proof (cases d)
    case None
    then show ?thesis by (simp add: track_body_def advances_refl)
  next
    case (Some die)
    have f1: "advances st (snd (final_write die (Next False, st)))"
      by (rule final_write_advances) (rule advances_refl)
    have f2: "advances st (snd (final_write die (Raised e, st)))" for e
      by (rule final_write_advances) (rule advances_refl)
    have f3: "advances st (snd (final_write die (track_subprogram rec dg die (depth + 1) st)))"
      by (rule final_write_advances') (rule track_subprogram_advances [OF assms])
    have f4: "advances st (snd (final_write die (track_pointer rec dg die (depth + 1) st)))"
      by (rule final_write_advances') (rule track_pointer_advances [OF assms])
    have f5: "advances st (snd (final_write die (track_through rec dg die (depth + 1) st)))"
      by (rule final_write_advances') (rule track_through_advances [OF assms])
    have f6: "advances st (snd (final_write die (track_typedef rec gd dg die (depth + 1) st)))"
      by (rule final_write_advances') (rule track_typedef_advances [OF assms])
    have f7: "advances st (snd (final_write die (track_aggregate rec gd dg die (depth + 1) mi st)))"
      by (rule final_write_advances') (rule track_aggregate_advances [OF assms])
    have f8: "advances st (snd (final_write die (track_enumeration gd dg die st)))"
      by (rule final_write_advances') (rule track_enumeration_advances)
    have f9: "advances st (snd (final_write die (track_reference rec dg die (depth + 1) st)))"
      by (rule final_write_advances') (rule track_reference_advances [OF assms])
    from Some f1 f2 f3 f4 f5 f6 f7 f8 f9 show ?thesis
      by (simp add: track_body_def Let_def advances_refl)
  qed
qed

lemma track_advances: "tracker_advances (track dg n)"
proof (induction n)
  case 0
  show ?case by (simp add: tracker_advances_def advances_refl)
next
  case (Suc n)
  then show ?case by (simp add: track_Suc [abs_def] track_body_advances)
qed

lemma track_calls_advances: "advances st (track_calls calls st)"
proof (induction calls arbitrary: st)
  case Nil
  show ?case by (simp add: advances_refl)
next
  case (Cons c calls)
  obtain dg n d depth mi where c: "c = (dg, n, d, depth, mi)"
    by (cases c)
  have "advances st (snd (track dg n d depth mi st))"
    using track_advances [of dg n] by (simp add: tracker_advances_def)
  from this Cons [of "snd (track dg n d depth mi st)"] show ?case
    unfolding c by (simp add: advances_trans)
qed

text \<open>
  Claim C2. Over any sequence of calls of \<^verbatim>\<open>track\<close> that share one \<^verbatim>\<open>shown\<close>, whether they
  return or raise: an entry that is \<^verbatim>\<open>"defined"\<close> stays \<^verbatim>\<open>"defined"\<close>; one that is
  \<^verbatim>\<open>"declared"\<close> stays so or becomes \<^verbatim>\<open>"defined"\<close>; a tag name that is recorded keeps its
  record; and the full definitions that the calls print are of distinct tag names, none of
  which was recorded before the calls. So no tag name gets a second full definition, also
  not from another entry of the same name.
\<close>

theorem C2_state_monotonic:
  "(\<forall>i. shown st (KDie i) = Some Defined \<longrightarrow> shown (track_calls calls st) (KDie i) = Some Defined) \<and>
   (\<forall>i. shown st (KDie i) = Some Declared \<longrightarrow>
          shown (track_calls calls st) (KDie i) = Some Declared \<or>
          shown (track_calls calls st) (KDie i) = Some Defined) \<and>
   (\<forall>tg. shown st (KTag tg) \<noteq> None \<longrightarrow> shown (track_calls calls st) (KTag tg) = shown st (KTag tg)) \<and>
   (\<exists>new. out (track_calls calls st) = out st @ new \<and> distinct (defined_tags new) \<and>
      (\<forall>tg \<in> set (defined_tags new). shown st (KTag tg) = None))"
  using track_calls_advances [of st calls] unfolding advances_def by blast

text \<open>
  From a state in which the node is defined: a second entry named \<^verbatim>\<open>node\<close> and the node
  itself in allow-incomplete mode are tracked, and no definition of \<^verbatim>\<open>node\<close> is printed.
\<close>

theorem C2_state_monotonic_witness:
  "shown ex_defined (KDie 192) = Some Defined \<and>
   shown ex_defined (KTag ''node'') = Some (Entry 192) \<and>
   shown (track_calls [(ex_dg, 3, Some ex_node_twin, 0, False), (ex_dg, 3, Some ex_node, 0, True)]
            ex_defined) (KDie 192) = Some Defined \<and>
   shown (track_calls [(ex_dg, 3, Some ex_node_twin, 0, False), (ex_dg, 3, Some ex_node, 0, True)]
            ex_defined) (KTag ''node'') = Some (Entry 192) \<and>
   ''node'' \<notin> set (defined_tags
      (out (track_calls [(ex_dg, 3, Some ex_node_twin, 0, False), (ex_dg, 3, Some ex_node, 0, True)]
              ex_defined)))"
proof -
  let ?st = "track_calls [(ex_dg, 3, Some ex_node_twin, 0, False), (ex_dg, 3, Some ex_node, 0, True)]
               ex_defined"
  have a: "shown ex_defined (KDie 192) = Some Defined" "shown ex_defined (KTag ''node'') = Some (Entry 192)"
    "out ex_defined = []"
    by (simp_all add: ex_defined_def)
  from C2_state_monotonic [of ex_defined
      "[(ex_dg, 3, Some ex_node_twin, 0, False), (ex_dg, 3, Some ex_node, 0, True)]"]
  have 1: "shown ex_defined (KDie 192) = Some Defined \<longrightarrow> shown ?st (KDie 192) = Some Defined"
    and 2: "shown ex_defined (KTag ''node'') \<noteq> None \<longrightarrow>
            shown ?st (KTag ''node'') = shown ex_defined (KTag ''node'')"
    and 3: "\<exists>new. out ?st = out ex_defined @ new \<and> distinct (defined_tags new) \<and>
      (\<forall>tg \<in> set (defined_tags new). shown ex_defined (KTag tg) = None)"
    by blast+
  from 3 a have "''node'' \<notin> set (defined_tags (out ?st))" by auto
  with 1 2 a show ?thesis by simp
qed

section \<open>Self-referential aggregates\<close>

lemma track_self_pointer:
  assumes "tag p = ''DW_TAG_pointer_type''" "get_type_die dg p = Some s"
    and "shown st (KDie (offset s)) = Some Defined"
  shows "track dg (Suc (Suc n)) (Some p) depth mi st =
           (None, if visits st p mi then set_shown (KDie (offset p)) Defined st else st)"
proof (cases "visits st p mi")
  case True
  then show ?thesis
    using assms(2)
    by (simp add: track_pointer_type [OF assms(1)] track_pointer_def track_defined [OF assms(3)]
        final_write_def)
next
  case False
  then consider "shown st (KDie (offset p)) = Some Defined"
    | "shown st (KDie (offset p)) = Some Declared" "mi"
    by (auto simp: visits_def)
  then show ?thesis
  proof cases
    case 1
    with False show ?thesis by (simp add: track_defined)
  next
    case 2
    with False show ?thesis by (simp add: track_declared)
  qed
qed

lemma gen_decl_self_pointer:
  assumes "tag p = ''DW_TAG_pointer_type''" "get_type_die dg p = Some s"
    and "tag s \<in> {''DW_TAG_structure_type'', ''DW_TAG_class_type'', ''DW_TAG_union_type''}"
    and "get_stem s = Ok stem" and "get_die_name_gensym dg s = Ok tg"
  shows "gen_decl dg (Suc (Suc n)) (Some p) nm = Ok (Some (stem @ '' '' @ tg @ '' *'' @ or_empty nm))"
  using assms(2)
  by (simp add: gen_decl_pointer [OF assms(1)] gen_decl_aggregate [OF assms(3,4,5)] truthy_def)

lemma track_keeps_defined:
  assumes "shown st (KDie i) = Some Defined"
  shows "shown (snd (track dg n d depth mi st)) (KDie i) = Some Defined"
  using track_advances [of dg n] assms
  unfolding tracker_advances_def advances_def by blast

lemma track_members_self:
  assumes agg: "tag s \<in> {''DW_TAG_structure_type'', ''DW_TAG_class_type'', ''DW_TAG_union_type''}"
    and stem: "get_stem s = Ok stem" and tg: "get_die_name_gensym dg s = Ok tg"
    and inv: "shown st (KDie (offset s)) = Some Defined"
    and names: "\<forall>c \<in> set cs. located c \<longrightarrow> (\<exists>nm. get_die_name dg c = Ok nm)"
    and others: "\<And>c st' dp. c \<in> set cs \<Longrightarrow> located c \<Longrightarrow> \<not> self_pointer dg s c \<Longrightarrow>
        shown st' (KDie (offset s)) = Some Defined \<Longrightarrow>
        fst (track dg (Suc (Suc n)) (get_type_die dg c) dp False st') = None \<and>
        (\<exists>r. gen_decl dg (Suc (Suc n)) (get_type_die dg c) (at_name (attributes c)) = Ok r)"
  shows "\<exists>ms st2. track_members (track dg (Suc (Suc n))) (gen_decl dg (Suc (Suc n))) dg dp cs members st =
            (Ok (members @ ms), st2) \<and>
          shown st2 (KDie (offset s)) = Some Defined \<and>
          length ms = length (filter located cs) \<and>
          (\<forall>c \<in> set cs. located c \<and> self_pointer dg s c \<longrightarrow> self_member_line stem tg c \<in> set ms)"
  using inv names others
proof (induction cs arbitrary: st members)
  case Nil
  then show ?case by simp
next
  case (Cons c cs)
  have names': "\<forall>c \<in> set cs. located c \<longrightarrow> (\<exists>nm. get_die_name dg c = Ok nm)"
    using Cons.prems(2) by simp
  have others': "\<And>c st' dp. c \<in> set cs \<Longrightarrow> located c \<Longrightarrow> \<not> self_pointer dg s c \<Longrightarrow>
        shown st' (KDie (offset s)) = Some Defined \<Longrightarrow>
        fst (track dg (Suc (Suc n)) (get_type_die dg c) dp False st') = None \<and>
        (\<exists>r. gen_decl dg (Suc (Suc n)) (get_type_die dg c) (at_name (attributes c)) = Ok r)"
    using Cons.prems(3) by simp
  note IH = Cons.IH [OF _ names' others']
  show ?case
  proof (cases "located c")
    case False
    from IH [OF Cons.prems(1), of members]
    obtain ms st2 where r: "track_members (track dg (Suc (Suc n))) (gen_decl dg (Suc (Suc n))) dg dp cs
          members st = (Ok (members @ ms), st2)"
      "shown st2 (KDie (offset s)) = Some Defined" "length ms = length (filter located cs)"
      "\<forall>c \<in> set cs. located c \<and> self_pointer dg s c \<longrightarrow> self_member_line stem tg c \<in> set ms"
      by blast
    from False have "track_members (track dg (Suc (Suc n))) (gen_decl dg (Suc (Suc n))) dg dp (c # cs)
          members st =
        track_members (track dg (Suc (Suc n))) (gen_decl dg (Suc (Suc n))) dg dp cs members st"
      by (auto simp: located_def Let_def)
    with r False show ?thesis by auto
  next
    case True
    then obtain mloc where mloc: "tag c = ''DW_TAG_member''"
      "at_data_member_location (attributes c) = Some mloc"
      by (auto simp: located_def)
    from True Cons.prems(2) obtain nm where nm: "get_die_name dg c = Ok nm" by auto
    then have nm_eq: "nm = at_name (attributes c)" by (rule get_die_name_Ok)
    obtain st1 where t: "track dg (Suc (Suc n)) (get_type_die dg c) dp False st = (None, st1)"
      and inv1: "shown st1 (KDie (offset s)) = Some Defined"
    proof (cases "self_pointer dg s c")
      case sp: True
      then obtain p where p: "get_type_die dg c = Some p" "tag p = ''DW_TAG_pointer_type''"
        "offset p \<noteq> offset s" "get_type_die dg p = Some s"
        by (auto simp: self_pointer_def split: option.splits)
      from track_self_pointer [OF p(2,4) Cons.prems(1), of n dp False] p(1,3) Cons.prems(1) that
      show ?thesis by (auto split: if_splits)
    next
      case False
      with Cons.prems(3) [of c st dp] True Cons.prems(1)
      have "fst (track dg (Suc (Suc n)) (get_type_die dg c) dp False st) = None" by simp
      moreover have "shown (snd (track dg (Suc (Suc n)) (get_type_die dg c) dp False st))
          (KDie (offset s)) = Some Defined"
        using Cons.prems(1) by (rule track_keeps_defined)
      ultimately show ?thesis
        using that by (cases "track dg (Suc (Suc n)) (get_type_die dg c) dp False st") auto
    qed
    obtain decl where g: "gen_decl dg (Suc (Suc n)) (get_type_die dg c) nm = Ok decl"
      and line: "self_pointer dg s c \<Longrightarrow>
        tab @ fstr decl @ '';'' @ tab @ ''/* +0x'' @ hex_int mloc @ '' */'' = self_member_line stem tg c"
    proof (cases "self_pointer dg s c")
      case sp: True
      then obtain p where p: "get_type_die dg c = Some p" "tag p = ''DW_TAG_pointer_type''"
        "get_type_die dg p = Some s"
        by (auto simp: self_pointer_def split: option.splits)
      from gen_decl_self_pointer [OF p(2,3) agg stem tg, of n nm] p(1) nm_eq mloc that
      show ?thesis by (simp add: self_member_line_def fstr_def)
    next
      case False
      with Cons.prems(3) [of c st dp] True Cons.prems(1) nm_eq that
      show ?thesis by auto
    qed
    let ?line = "tab @ fstr decl @ '';'' @ tab @ ''/* +0x'' @ hex_int mloc @ '' */''"
    from IH [OF inv1, of "members @ [?line]"]
    obtain ms st2 where r: "track_members (track dg (Suc (Suc n))) (gen_decl dg (Suc (Suc n))) dg dp cs
          (members @ [?line]) st1 = (Ok ((members @ [?line]) @ ms), st2)"
      "shown st2 (KDie (offset s)) = Some Defined" "length ms = length (filter located cs)"
      "\<forall>c \<in> set cs. located c \<and> self_pointer dg s c \<longrightarrow> self_member_line stem tg c \<in> set ms"
      by blast
    have "track_members (track dg (Suc (Suc n))) (gen_decl dg (Suc (Suc n))) dg dp (c # cs) members st =
        (Ok (members @ (?line # ms)), st2)"
      using mloc nm t g r(1) by (simp add: Let_def)
    moreover have "length (?line # ms) = length (filter located (c # cs))"
      using r(3) True by simp
    moreover have "\<forall>c' \<in> set (c # cs). located c' \<and> self_pointer dg s c' \<longrightarrow>
        self_member_line stem tg c' \<in> set (?line # ms)"
      using r(4) line by auto
    ultimately show ?thesis using r(2) by blast
  qed
qed

lemma fold_members_out:
  "out (fold (\<lambda>line. print_line (Member line)) ms st) = out st @ map Member ms"
  by (induction ms arbitrary: st) (simp_all add: print_line_def)

lemma fold_members_shown:
  "shown (fold (\<lambda>line. print_line (Member line)) ms st) = shown st"
  by (induction ms arbitrary: st) (simp_all add: print_line_def)

lemma print_line_simps [simp]:
  "out (print_line l st) = out st @ [l]" "shown (print_line l st) = shown st"
  by (simp_all add: print_line_def)

text \<open>
  Claim C3. An aggregate that is fully tracked records its tag name and marks itself
  \<^verbatim>\<open>"defined"\<close> before the member loop. For an aggregate with a member whose type is a pointer
  to the aggregate itself, the visit of that member therefore returns at once: the call
  returns with three frames or more, whatever the number, the aggregate ends \<^verbatim>\<open>"defined"\<close>,
  its definition is printed, and every such member is printed as a pointer to the same tag
  (\<open>self_member_line\<close>). The other members are any whose type is tracked and declared
  without failure by the calls of the member loop; every rendered member has a name that
  passes validation or none.
\<close>

theorem C3_self_referential_struct:
  assumes agg: "tag s \<in> {''DW_TAG_structure_type'', ''DW_TAG_class_type'', ''DW_TAG_union_type''}"
    and fresh: "shown st (KDie (offset s)) \<noteq> Some Defined"
    and decl: "\<not> at_declaration (attributes s)"
    and stem: "get_stem s = Ok stem" and tg: "get_die_name_gensym dg s = Ok tg"
    and tag_fresh: "shown st (KTag tg) = None"
    and sz: "at_byte_size (attributes s) = Some sz"
    and names: "\<forall>c \<in> set (children s). located c \<longrightarrow> (\<exists>nm. get_die_name dg c = Ok nm)"
    and has: "\<exists>c \<in> set (children s). located c \<and> self_pointer dg s c"
    and others: "\<And>c st' dp. c \<in> set (children s) \<Longrightarrow> located c \<Longrightarrow> \<not> self_pointer dg s c \<Longrightarrow>
        shown st' (KDie (offset s)) = Some Defined \<Longrightarrow>
        fst (track dg (Suc (Suc n)) (get_type_die dg c) dp False st') = None \<and>
        (\<exists>r. gen_decl dg (Suc (Suc n)) (get_type_die dg c) (at_name (attributes c)) = Ok r)"
  shows "\<exists>st'. track dg (Suc (Suc (Suc n))) (Some s) depth False st = (None, st') \<and>
           shown st' (KDie (offset s)) = Some Defined \<and>
           shown st' (KTag tg) = Some (Entry (offset s)) \<and>
           Opening tg (stem @ '' '' @ tg @ tab @ ''/* size=0x'' @ hex_int sz @ '' */'') \<in> set (out st') \<and>
           (\<forall>c \<in> set (children s). located c \<and> self_pointer dg s c \<longrightarrow>
              Member (self_member_line stem tg c) \<in> set (out st'))"
proof -
  define st1 where "st1 = set_shown (KDie (offset s)) Defined
                           (set_shown (KTag tg) (Entry (offset s)) st)"
  have inv1: "shown st1 (KDie (offset s)) = Some Defined"
    and t1: "shown st1 (KTag tg) = Some (Entry (offset s))"
    by (simp_all add: st1_def)
  have "\<exists>ms st2. track_members (track dg (Suc (Suc n))) (gen_decl dg (Suc (Suc n))) dg
        (depth + 1) (children s) [] st1 = (Ok ([] @ ms), st2) \<and>
      shown st2 (KDie (offset s)) = Some Defined \<and>
      length ms = length (filter located (children s)) \<and>
      (\<forall>c \<in> set (children s). located c \<and> self_pointer dg s c \<longrightarrow>
                  self_member_line stem tg c \<in> set ms)"
  proof (rule track_members_self [OF agg stem tg inv1 names])
    fix c and st' :: state and dp
    assume "c \<in> set (children s)" "located c" "\<not> self_pointer dg s c"
      "shown st' (KDie (offset s)) = Some Defined"
    then show "fst (track dg (Suc (Suc n)) (get_type_die dg c) dp False st') = None \<and>
        (\<exists>r. gen_decl dg (Suc (Suc n)) (get_type_die dg c) (at_name (attributes c)) = Ok r)"
      by (rule others)
  qed
  then obtain ms st2 where m: "track_members (track dg (Suc (Suc n))) (gen_decl dg (Suc (Suc n))) dg
        (depth + 1) (children s) [] st1 = (Ok ms, st2)"
    and inv2: "shown st2 (KDie (offset s)) = Some Defined"
    and len: "length ms = length (filter located (children s))"
    and lines: "\<forall>c \<in> set (children s). located c \<and> self_pointer dg s c \<longrightarrow>
                  self_member_line stem tg c \<in> set ms"
    unfolding append_Nil by blast
  from has have "filter located (children s) \<noteq> []"
    by (auto simp: filter_empty_conv)
  with len have ne: "ms \<noteq> []" by auto
  have "advances st1 st2"
    using track_members_advances [OF track_advances, of st1 dg "Suc (Suc n)"
        "gen_decl dg (Suc (Suc n))" dg "depth + 1" "children s" "[]"] m
    by simp
  with t1 have t2: "shown st2 (KTag tg) = Some (Entry (offset s))"
    unfolding advances_def by auto
  have g: "gen_decl dg (Suc (Suc n)) (Some s) None = Ok (Some (stem @ '' '' @ tg))"
    using gen_decl_aggregate [OF agg stem tg] by (simp add: truthy_def)
  have v: "visits st s False"
    using fresh by (simp add: visits_def)
  let ?opening = "Opening tg (stem @ '' '' @ tg @ tab @ ''/* size=0x'' @ hex_int sz @ '' */'')"
  let ?st' = "set_shown (KDie (offset s)) Defined
      (print_line (Closing ''};'')
        (fold (\<lambda>line. print_line (Member line)) ms
          (print_line ?opening (print_line (location_comment dg s) st2))))"
  have "track dg (Suc (Suc (Suc n))) (Some s) depth False st = (None, ?st')"
    using decl tg tag_fresh sz m g ne
    by (simp add: track_aggregate_type [OF agg v] track_aggregate_def Let_def st1_def [symmetric]
        final_write_def)
  moreover have "shown ?st' (KDie (offset s)) = Some Defined"
    by simp
  moreover have "shown ?st' (KTag tg) = Some (Entry (offset s))"
    using t2 by (simp add: fold_members_shown)
  moreover have "?opening \<in> set (out ?st')"
    by (simp add: fold_members_out)
  moreover have "\<forall>c \<in> set (children s). located c \<and> self_pointer dg s c \<longrightarrow>
              Member (self_member_line stem tg c) \<in> set (out ?st')"
    using lines by (auto simp: fold_members_out)
  ultimately show ?thesis by blast
qed

lemma track_base_returns:
  assumes "tag b = ''DW_TAG_base_type''"
  shows "fst (track dg (Suc k) (Some b) dp mi st) = None"
proof (cases "visits st b mi")
  case True
  then show ?thesis by (simp add: track_base [OF assms] final_write_def)
next
  case False
  then consider "shown st (KDie (offset b)) = Some Defined"
    | "shown st (KDie (offset b)) = Some Declared" "mi"
    by (auto simp: visits_def)
  then show ?thesis
    by cases (simp_all add: track_defined track_declared)
qed

lemma ex_node_members:
  "children ex_node =
    [DIE ''DW_TAG_member'' 196
        (no_attrs\<lparr>at_name := Some ''val'', at_type := Some 16, at_data_member_location := Some 0\<rparr>) [],
      DIE ''DW_TAG_member'' 200
        (no_attrs\<lparr>at_name := Some ''next'', at_type := Some 208, at_data_member_location := Some 8\<rparr>) []]"
  by (simp add: ex_node_def)

lemma ex_node_member_facts:
  "located (DIE ''DW_TAG_member'' 196
        (no_attrs\<lparr>at_name := Some ''val'', at_type := Some 16, at_data_member_location := Some 0\<rparr>) [])"
  "located (DIE ''DW_TAG_member'' 200
        (no_attrs\<lparr>at_name := Some ''next'', at_type := Some 208, at_data_member_location := Some 8\<rparr>) [])"
  "get_type_die ex_dg (DIE ''DW_TAG_member'' 196
        (no_attrs\<lparr>at_name := Some ''val'', at_type := Some 16, at_data_member_location := Some 0\<rparr>) []) =
     Some ex_int"
  "self_pointer ex_dg ex_node (DIE ''DW_TAG_member'' 200
        (no_attrs\<lparr>at_name := Some ''next'', at_type := Some 208, at_data_member_location := Some 8\<rparr>) [])"
  "get_die_name ex_dg (DIE ''DW_TAG_member'' 196
        (no_attrs\<lparr>at_name := Some ''val'', at_type := Some 16, at_data_member_location := Some 0\<rparr>) []) =
     Ok (Some ''val'')"
  "get_die_name ex_dg (DIE ''DW_TAG_member'' 200
        (no_attrs\<lparr>at_name := Some ''next'', at_type := Some 208, at_data_member_location := Some 8\<rparr>) []) =
     Ok (Some ''next'')"
  "self_member_line ''struct'' ''node'' (DIE ''DW_TAG_member'' 200
        (no_attrs\<lparr>at_name := Some ''next'', at_type := Some 208, at_data_member_location := Some 8\<rparr>) []) =
     tab @ ''struct node *next;'' @ tab @ ''/* +0x8 */''"
  by (simp_all add: located_def self_pointer_def get_type_die_def ex_dg_def no_attrs_def
      ex_node_ptr_def ex_node_def get_die_name_def is_valid_name_def goodchar_def
      self_member_line_def or_empty_def truthy_def hex_int_def hex_nat.simps digit_char_def)

text \<open>
  The list node, from the empty state and with three frames: its member \<^verbatim>\<open>next\<close> prints
  as \<^verbatim>\<open>struct node *next;\<close>.
\<close>

theorem C3_self_referential_struct_witness:
  "tag ex_node = ''DW_TAG_structure_type'' \<and>
   (\<exists>c \<in> set (children ex_node). located c \<and> self_pointer ex_dg ex_node c) \<and>
   (\<exists>st'. track ex_dg 3 (Some ex_node) 0 False empty_state = (None, st') \<and>
      shown st' (KDie 192) = Some Defined \<and>
      shown st' (KTag ''node'') = Some (Entry 192) \<and>
      Opening ''node'' (''struct node'' @ tab @ ''/* size=0x10 */'') \<in> set (out st') \<and>
      Member (tab @ ''struct node *next;'' @ tab @ ''/* +0x8 */'') \<in> set (out st'))"
proof -
  have int_decl: "gen_decl ex_dg (Suc (Suc 0)) (Some ex_int) (Some ''val'') = Ok (Some ''int val'')"
    by (simp add: gen_decl_base truthy_def get_die_name_def ex_int_def no_attrs_def is_valid_name_int)
  have sz: "at_byte_size (attributes ex_node) = Some 16" "\<not> at_declaration (attributes ex_node)"
    by (simp_all add: ex_node_def no_attrs_def)
  have hex: "hex_int 16 = ''10''"
    by (simp add: hex_int_def hex_nat.simps digit_char_def)
  have has: "\<exists>c \<in> set (children ex_node). located c \<and> self_pointer ex_dg ex_node c"
    by (simp add: ex_node_members ex_node_member_facts)
  have names: "\<forall>c \<in> set (children ex_node). located c \<longrightarrow> (\<exists>nm. get_die_name ex_dg c = Ok nm)"
    by (simp add: ex_node_members ex_node_member_facts)
  have fresh: "shown empty_state (KDie (offset ex_node)) \<noteq> Some Defined"
    "shown empty_state (KTag ''node'') = None"
    by (simp_all add: empty_state_def)
  have others: "fst (track ex_dg (Suc (Suc 0)) (get_type_die ex_dg c) dp False st') = None \<and>
        (\<exists>r. gen_decl ex_dg (Suc (Suc 0)) (get_type_die ex_dg c) (at_name (attributes c)) = Ok r)"
    if "c \<in> set (children ex_node)" "located c" "\<not> self_pointer ex_dg ex_node c" for c st' dp
  proof -
    from that have c: "c = DIE ''DW_TAG_member'' 196
        (no_attrs\<lparr>at_name := Some ''val'', at_type := Some 16, at_data_member_location := Some 0\<rparr>) []"
      by (auto simp: ex_node_members ex_node_member_facts)
    show ?thesis
      unfolding c ex_node_member_facts
      using int_decl by (simp add: track_base_returns no_attrs_def)
  qed
  from C3_self_referential_struct [of ex_node empty_state "''struct''" ex_dg "''node''" 16 0 0,
      OF _ fresh(1) sz(2) ex_node_facts(6,7) fresh(2) sz(1) names has others]
  have "\<exists>st'. track ex_dg (Suc (Suc (Suc 0))) (Some ex_node) 0 False empty_state = (None, st') \<and>
           shown st' (KDie (offset ex_node)) = Some Defined \<and>
           shown st' (KTag ''node'') = Some (Entry (offset ex_node)) \<and>
           Opening ''node'' (''struct'' @ '' '' @ ''node'' @ tab @ ''/* size=0x'' @ hex_int 16 @ '' */'')
             \<in> set (out st') \<and>
           (\<forall>c \<in> set (children ex_node). located c \<and> self_pointer ex_dg ex_node c \<longrightarrow>
              Member (self_member_line ''struct'' ''node'' c) \<in> set (out st'))"
    by (simp add: ex_node_facts)
  then obtain st' where st': "track ex_dg (Suc (Suc (Suc 0))) (Some ex_node) 0 False empty_state = (None, st')"
    "shown st' (KDie (offset ex_node)) = Some Defined"
    "shown st' (KTag ''node'') = Some (Entry (offset ex_node))"
    "Opening ''node'' (''struct'' @ '' '' @ ''node'' @ tab @ ''/* size=0x'' @ hex_int 16 @ '' */'')
             \<in> set (out st')"
    "\<forall>c \<in> set (children ex_node). located c \<and> self_pointer ex_dg ex_node c \<longrightarrow>
              Member (self_member_line ''struct'' ''node'' c) \<in> set (out st')"
    by blast
  from st'(5) have "Member (tab @ ''struct node *next;'' @ tab @ ''/* +0x8 */'') \<in> set (out st')"
    by (simp add: ex_node_members ex_node_member_facts)
  with st'(1,2,3,4) hex
  have "track ex_dg 3 (Some ex_node) 0 False empty_state = (None, st') \<and>
      shown st' (KDie 192) = Some Defined \<and>
      shown st' (KTag ''node'') = Some (Entry 192) \<and>
      Opening ''node'' (''struct node'' @ tab @ ''/* size=0x10 */'') \<in> set (out st') \<and>
      Member (tab @ ''struct node *next;'' @ tab @ ''/* +0x8 */'') \<in> set (out st')"
    by (simp add: numeral_3_eq_3 ex_node_facts)
  with has ex_node_facts(1) show ?thesis by blast
qed

section \<open>The depth argument and the frames\<close>

lemma depth_freeD: "depth_free rec \<Longrightarrow> rec d depth mi st = rec d depth' mi st"
  unfolding depth_free_def by blast

lemma track_params_depth:
  assumes "depth_free rec"
  shows "track_params rec dg depth cs st = track_params rec dg depth' cs st"
proof (induction cs arbitrary: st)
  case Nil
  show ?case by simp
next
  case (Cons c cs)
  have "rec (get_type_die dg c) depth False st = rec (get_type_die dg c) depth' False st"
    using assms by (rule depth_freeD)
  with Cons show ?case
    by (simp split: prod.splits option.splits)
qed

lemma track_members_depth:
  assumes "depth_free rec"
  shows "track_members rec gd dg depth cs members st = track_members rec gd dg depth' cs members st"
proof (induction cs arbitrary: st members)
  case Nil
  show ?case by simp
next
  case (Cons c cs)
  have "rec (get_type_die dg c) depth False st = rec (get_type_die dg c) depth' False st"
    using assms by (rule depth_freeD)
  with Cons show ?case
    by (simp add: Let_def split: prod.splits option.splits result.splits)
qed

lemma track_body_depth:
  assumes "depth_free rec"
  shows "depth_free (track_body dg rec gd)"
  unfolding depth_free_def
proof (intro allI)
  fix d depth depth' mi st
  have r: "rec x (depth + 1) m s = rec x (depth' + 1) m s" for x m s
    using assms by (rule depth_freeD)
  have p: "track_params rec dg (depth + 1) cs s = track_params rec dg (depth' + 1) cs s" for cs s
    using assms by (rule track_params_depth)
  have m: "track_members rec gd dg (depth + 1) cs ms s = track_members rec gd dg (depth' + 1) cs ms s"
    for cs ms s
    using assms by (rule track_members_depth)
  have 1: "track_subprogram rec dg die (depth + 1) st = track_subprogram rec dg die (depth' + 1) st" for die
    unfolding track_subprogram_def r p by (rule refl)
  have 2: "track_pointer rec dg die (depth + 1) st = track_pointer rec dg die (depth' + 1) st" for die
    by (simp add: track_pointer_def r)
  have 3: "track_through rec dg die (depth + 1) st = track_through rec dg die (depth' + 1) st" for die
    by (simp add: track_through_def r)
  have 4: "track_typedef rec gd dg die (depth + 1) st = track_typedef rec gd dg die (depth' + 1) st" for die
    by (simp add: track_typedef_def r)
  have 5: "track_aggregate rec gd dg die (depth + 1) mi st =
           track_aggregate rec gd dg die (depth' + 1) mi st" for die
    unfolding track_aggregate_def m by (rule refl)
  have 6: "track_reference rec dg die (depth + 1) st = track_reference rec dg die (depth' + 1) st" for die
    by (simp add: track_reference_def r)
  show "track_body dg rec gd d depth mi st = track_body dg rec gd d depth' mi st"
    unfolding track_body_def Let_def 1 2 3 4 5 6 by (rule refl)
qed

lemma track_depth_free: "depth_free (track dg n)"
proof (induction n)
  case 0
  show ?case by (simp add: depth_free_def)
next
  case (Suc n)
  then show ?case by (simp add: track_Suc [abs_def] track_body_depth)
qed

lemma chain_die_facts:
  "k < n \<Longrightarrow> tag (chain_die n k) = ''DW_TAG_pointer_type''"
  "k < n \<Longrightarrow> get_type_die (chain_dg n) (chain_die n k) = Some (chain_die n (Suc k))"
  "tag (chain_die n n) = ''DW_TAG_base_type''"
  "offset (chain_die n k) = int k"
  by (simp_all add: chain_die_def chain_dg_def get_type_die_def nat_add_distrib)

lemma chain_completes:
  assumes "k \<le> n"
  shows "fst (track (chain_dg n) (Suc (n - k) + m) (Some (chain_die n k)) depth mi st) = None"
  using assms
proof (induction "n - k" arbitrary: k depth mi st)
  case 0
  then have "k = n" by simp
  then show ?case by (simp add: track_base_returns chain_die_facts)
next
  case (Suc j)
  then have k: "k < n" and j: "j = n - Suc k" "Suc k \<le> n" by simp_all
  have f: "Suc (n - k) + m = Suc (Suc (n - Suc k) + m)"
    using k by simp
  show ?case
  proof (cases "visits st (chain_die n k) mi")
    case True
    from Suc.hyps(1) [OF j, of "depth + 1" True st]
    show ?thesis
      unfolding f
      by (cases "track (chain_dg n) (Suc (n - Suc k) + m) (Some (chain_die n (Suc k))) (depth + 1) True st")
         (simp add: track_pointer_type [OF chain_die_facts(1) [OF k] True] track_pointer_def
          chain_die_facts(2) [OF k] final_write_def)
  next
    case False
    then consider "shown st (KDie (offset (chain_die n k))) = Some Defined"
      | "shown st (KDie (offset (chain_die n k))) = Some Declared" "mi"
      by (auto simp: visits_def)
    then show ?thesis
      unfolding f by cases (simp_all add: track_defined track_declared)
  qed
qed

lemma chain_exhausts:
  assumes "\<forall>i. shown st (KDie i) = None" "frames \<le> n - k"
  shows "fst (track (chain_dg n) frames (Some (chain_die n k)) depth mi st) = Some RecursionError"
  using assms(2)
proof (induction frames arbitrary: k depth mi)
  case 0
  show ?case by simp
next
  case (Suc f)
  then have k: "k < n" and f: "f \<le> n - Suc k" by simp_all
  have v: "visits st (chain_die n k) mi"
    using assms(1) by (simp add: visits_def)
  from Suc.IH [OF f, of "depth + 1" True]
  show ?case
    by (cases "track (chain_dg n) f (Some (chain_die n (Suc k))) (depth + 1) True st")
       (simp add: track_pointer_type [OF chain_die_facts(1) [OF k] v] track_pointer_def
        chain_die_facts(2) [OF k] final_write_def)
qed

text \<open>
  Claim C9 says that there is a maximum depth beyond which tracking a chain of types fails.
  There is none: for every bound, a longer chain of pointers is tracked to the end when the
  interpreter has the frames for it.
\<close>

theorem C9_counterexample:
  "\<not> (\<exists>bound. \<forall>n > bound. \<forall>frames.
        fst (track (chain_dg n) frames (Some (chain_die n 0)) 0 False empty_state) \<noteq> None)"
proof
  assume "\<exists>bound. \<forall>n > bound. \<forall>frames.
        fst (track (chain_dg n) frames (Some (chain_die n 0)) 0 False empty_state) \<noteq> None"
  then obtain bound where "\<forall>n > bound. \<forall>frames.
        fst (track (chain_dg n) frames (Some (chain_die n 0)) 0 False empty_state) \<noteq> None"
    by blast
  then have "fst (track (chain_dg (Suc bound)) (Suc (Suc bound - 0) + 0)
               (Some (chain_die (Suc bound) 0)) 0 False empty_state) \<noteq> None"
    by blast
  moreover have "fst (track (chain_dg (Suc bound)) (Suc (Suc bound - 0) + 0)
               (Some (chain_die (Suc bound) 0)) 0 False empty_state) = None"
    by (rule chain_completes) simp
  ultimately show False by simp
qed

text \<open>
  Claim C9, amended. The emitter sets no bound of its own to the recursion: \<^verbatim>\<open>track\<close>
  increments its depth argument and passes it on, and nothing reads it, so the result of a
  call does not depend on the depth. What bounds the recursion is the interpreter: every
  chain of pointers is tracked to the end when the interpreter allows enough nested calls;
  whatever it allows, the call on a chain either completes or fails with the interpreter's
  \<open>RecursionError\<close>, and there is a chain long enough for the call to fail so.
\<close>

theorem C9_depth_unbounded:
  "track dg frames d depth mi st = track dg frames d depth' mi st \<and>
   (\<exists>limit. \<forall>frames \<ge> limit.
      fst (track (chain_dg n) frames (Some (chain_die n 0)) depth mi st) = None) \<and>
   fst (track (chain_dg n) frames (Some (chain_die n 0)) depth mi empty_state)
     \<in> {None, Some RecursionError} \<and>
   (\<exists>n. fst (track (chain_dg n) frames (Some (chain_die n 0)) depth mi empty_state) =
      Some RecursionError)"
proof -
  have 1: "track dg frames d depth mi st = track dg frames d depth' mi st"
    using track_depth_free by (rule depth_freeD)
  have c: "fst (track (chain_dg n) f (Some (chain_die n 0)) depth mi s) = None"
    if "Suc n \<le> f" for f s
  proof -
    from that have "f = Suc (n - 0) + (f - Suc n)" by simp
    then show ?thesis
      using chain_completes [of 0 n "f - Suc n" depth mi s] by simp
  qed
  have e: "fst (track (chain_dg k) f (Some (chain_die k 0)) depth mi empty_state) =
             Some RecursionError" if "f \<le> k" for f k
    using that by (intro chain_exhausts) (simp_all add: empty_state_def)
  from c have 2: "\<exists>limit. \<forall>frames \<ge> limit.
      fst (track (chain_dg n) frames (Some (chain_die n 0)) depth mi st) = None"
    by blast
  have 3: "fst (track (chain_dg n) frames (Some (chain_die n 0)) depth mi empty_state)
     \<in> {None, Some RecursionError}"
  proof (cases "frames \<le> n")
    case True
    then show ?thesis by (simp add: e)
  next
    case False
    then have "Suc n \<le> frames" by simp
    then show ?thesis by (simp add: c)
  qed
  from e [of frames frames] have 4: "\<exists>n. fst (track (chain_dg n) frames (Some (chain_die n 0)) depth mi empty_state) =
      Some RecursionError"
    by blast
  from 1 2 3 4 show ?thesis by (intro conjI)
qed

text \<open>
  A chain of 200 pointers: the same result at depth 0 as at depth 1000, tracked to the end
  with some number of frames; with 100 frames a long enough chain fails with
  \<open>RecursionError\<close>.
\<close>

theorem C9_depth_unbounded_witness:
  "track (chain_dg 200) 100 (Some (chain_die 200 0)) 0 False empty_state =
     track (chain_dg 200) 100 (Some (chain_die 200 0)) 1000 False empty_state \<and>
   (\<exists>limit. fst (track (chain_dg 200) limit (Some (chain_die 200 0)) 0 False empty_state) = None) \<and>
   fst (track (chain_dg 200) 100 (Some (chain_die 200 0)) 0 False empty_state)
     \<in> {None, Some RecursionError} \<and>
   (\<exists>n. fst (track (chain_dg n) 100 (Some (chain_die n 0)) 0 False empty_state) =
      Some RecursionError)"
proof -
  note t = C9_depth_unbounded [of "chain_dg 200" 100 "Some (chain_die 200 0)" 0 False empty_state
      1000 200]
  from t have a: "track (chain_dg 200) 100 (Some (chain_die 200 0)) 0 False empty_state =
     track (chain_dg 200) 100 (Some (chain_die 200 0)) 1000 False empty_state"
    by (rule conjunct1)
  from t [THEN conjunct2, THEN conjunct1]
  obtain limit where "\<forall>frames \<ge> limit.
      fst (track (chain_dg 200) frames (Some (chain_die 200 0)) 0 False empty_state) = None"
    by blast
  then have "fst (track (chain_dg 200) limit (Some (chain_die 200 0)) 0 False empty_state) = None"
    by blast
  then have b: "\<exists>limit. fst (track (chain_dg 200) limit (Some (chain_die 200 0)) 0 False empty_state) = None"
    by blast
  note c = t [THEN conjunct2, THEN conjunct2, THEN conjunct1]
  note d = t [THEN conjunct2, THEN conjunct2, THEN conjunct2]
  from a b c d show ?thesis by (intro conjI)
qed

section \<open>The driver\<close>

text \<open>
  A \<^verbatim>\<open>ParseError\<close> that \<^verbatim>\<open>track\<close> raises for a root is caught by \<^verbatim>\<open>explain\<close>: the comment
  is printed and the loop goes on with the next candidate. Any other exception ends the
  loop.
\<close>

lemma explain_catches_ParseError:
  assumes "track dg n (Some die) 0 False st = (Some (ParseError m), st1)"
  shows "explain_dies dg n name (die # ds) st =
           explain_dies dg n name ds (print_line (skipped_root dg die name m) st1)"
  using assms by simp

lemma explain_passes_on:
  assumes "track dg n (Some die) 0 False st = (Some e, st1)" "\<forall>m. e \<noteq> ParseError m"
  shows "explain_dies dg n name (die # ds) st = (Some e, st1)"
  using assms by (cases e) simp_all

text \<open>
  Claim C1 says that a naming failure during the emission of one root is reported in a
  comment and that the iteration goes on. In the example unit the member \<^verbatim>\<open>a$b\<close> of the
  structure \<^verbatim>\<open>first\<close> fails validation, and its type, the typedef \<^verbatim>\<open>my$int\<close>, was skipped by
  the indexer, so that \<^verbatim>\<open>mtype\<close> is \<^verbatim>\<open>None\<close>: the handler of line 273 reads \<^verbatim>\<open>mtype.tag\<close>
  and raises \<open>AttributeError\<close>, which \<^verbatim>\<open>explain\<close> does not catch. The output holds the
  indexer's comment only; nothing is printed for \<^verbatim>\<open>first\<close> and \<^verbatim>\<open>second\<close> is never
  reached.
\<close>

theorem C1_failing_input:
  "(case TypeDG_init 0 ex_dollar_unit [''a.c''] [] of
      (Ok dg, outp) \<Rightarrow>
        map fst (named_types dg) = [''first'', ''second''] \<and>
        fst (explain dg 10 None \<lparr>out = outp, shown = Map.empty\<rparr>) = Some AttributeError \<and>
        map text_of (out (snd (explain dg 10 None \<lparr>out = outp, shown = Map.empty\<rparr>))) =
          [''/* skipped DW_TAG_typedef at _nowhere_: invalid C identifier '' @
             [CHR 0x27] @ ''my$int'' @ [CHR 0x27] @ '' */'']
    | (Raise e, outp) \<Rightarrow> False)"
  by code_simp


end
